theory Spec2Isabelle
  imports Main "HOL-Library.Word" "HOL-Library.Monad_Syntax" "HOL-Library.Signed_Division"
begin

unbundle bit_operations_syntax

section \<open>Machine types and memory blocks\<close>

text \<open>
  \<open>JOCTET\<close> and \<open>u_char\<close> are bytes, \<open>uint\<close> is a 32-bit unsigned integer whose
  arithmetic wraps. A block obtained from the allocator is a list of bytes; a pointer into
  it is an index. A store outside the block is undefined behaviour in C; here it is the
  value \<open>None\<close>, so that "every write stays inside the block" is the statement that the
  result is \<open>Some\<close>.
\<close>

type_synonym JOCTET = "8 word"
type_synonym uint = "32 word"
type_synonym block = "JOCTET list"

text \<open>\<open>memcpy (dest + p, src, n)\<close> into the block \<open>m\<close>.\<close>

definition memcpy :: "block \<Rightarrow> nat \<Rightarrow> JOCTET list \<Rightarrow> nat \<Rightarrow> block option" where
  "memcpy m p src n =
     (if n \<le> length src \<and> p + n \<le> length m
      then Some (take p m @ take n src @ drop (p + n) m) else None)"

text \<open>\<open>memset (dest + p, c, n)\<close> into the block \<open>m\<close>.\<close>

definition memset :: "block \<Rightarrow> nat \<Rightarrow> JOCTET \<Rightarrow> nat \<Rightarrow> block option" where
  "memset m p c n = memcpy m p (replicate n c) n"

text \<open>A C string is represented by its characters before the terminating NUL;
  \<open>c_str\<close> is the content of the character buffer, terminator included.\<close>

definition strlen :: "string \<Rightarrow> nat" where
  "strlen s = length s"

definition c_str :: "string \<Rightarrow> JOCTET list" where
  "c_str s = map of_char s @ [0]"

section \<open>TIFF constants and fixed tables\<close>

definition TIFF_TAG_IMAGE_DESCRIPTION :: uint where "TIFF_TAG_IMAGE_DESCRIPTION = 0x010E"
definition TIFF_TAG_DATETIME :: uint where "TIFF_TAG_DATETIME = 0x0132"
definition TIFF_TAG_EXIF_IFD :: uint where "TIFF_TAG_EXIF_IFD = 0x8769"
definition TIFF_TAG_TZ_OFFSET :: uint where "TIFF_TAG_TZ_OFFSET = 0x882A"
definition EXIF_TAG_EXIF_VERSION :: uint where "EXIF_TAG_EXIF_VERSION = 0x9000"
definition EXIF_TAG_ORIGINAL_DATETIME :: uint where "EXIF_TAG_ORIGINAL_DATETIME = 0x9003"
definition EXIF_TAG_SUBJECT_AREA :: uint where "EXIF_TAG_SUBJECT_AREA = 0x9214"
definition EXIF_TAG_ORIGINAL_DATETIME_SS :: uint where "EXIF_TAG_ORIGINAL_DATETIME_SS = 0x9291"

definition TIFF_TYPE_ASCII :: uint where "TIFF_TYPE_ASCII = 2"
definition TIFF_TYPE_USHORT :: uint where "TIFF_TYPE_USHORT = 3"

definition exif_marker_start :: "JOCTET list" where
  "exif_marker_start =
     [0x45, 0x78, 0x69, 0x66, 0, 0,
      0x4D, 0x4D, 0, 42,
      0, 0, 0, 8]"

definition exif_version_tag :: "JOCTET list" where
  "exif_version_tag =
     [0x90, 0x00,
      0x00, 0x07,
      0x00, 0x00, 0x00, 0x04,
      0x30, 0x32, 0x32, 0x30]"

definition exif_subifd_tag :: "JOCTET list" where
  "exif_subifd_tag =
     [0x87, 0x69,
      0x00, 0x04,
      0x00, 0x00, 0x00, 0x01]"

definition exif_tzoffset_tag :: "JOCTET list" where
  "exif_tzoffset_tag =
     [0x88, 0x2A,
      0x00, 0x08,
      0x00, 0x00, 0x00, 0x01,
      0, 0, 0, 0]"

section \<open>Big-endian stores\<close>

definition put_uint16 :: "block \<Rightarrow> nat \<Rightarrow> uint \<Rightarrow> block option" where
  "put_uint16 m p v =
     memcpy m p [ucast (drop_bit 8 (v AND 0xFF00)), ucast (v AND 0x00FF)] 2"

text \<open>\<open>put_sint16\<close> takes an \<open>int\<close>; the masks and shifts act on its two's complement
  representation, which is the 32-bit word of the same value.\<close>

definition put_sint16 :: "block \<Rightarrow> nat \<Rightarrow> int \<Rightarrow> block option" where
  "put_sint16 m p v =
     memcpy m p [ucast (drop_bit 8 ((word_of_int v :: uint) AND 0xFF00)),
                 ucast ((word_of_int v :: uint) AND 0x00FF)] 2"

definition put_uint32 :: "block \<Rightarrow> nat \<Rightarrow> uint \<Rightarrow> block option" where
  "put_uint32 m p v =
     memcpy m p [ucast (drop_bit 24 (v AND 0xFF000000)), ucast (drop_bit 16 (v AND 0x00FF0000)),
                 ucast (drop_bit 8 (v AND 0x0000FF00)), ucast (v AND 0x000000FF)] 4"

section \<open>The write cursor\<close>

text \<open>\<open>base\<close> and \<open>buf\<close> point into the marker block (indices); \<open>data_offset\<close> is the
  next free out-of-line offset, relative to \<open>base\<close>.\<close>

record tiff_writing =
  base :: nat
  buf :: nat
  data_offset :: uint

type_synonym wstate = "tiff_writing \<times> block"

text \<open>The alignment loop of \<open>put_direntry\<close>:
  \<open>while ((offset & 0x03) != 0) { into->base[offset] = 0; offset++; }\<close>\<close>

function put_direntry_align :: "nat \<Rightarrow> uint \<Rightarrow> block \<Rightarrow> (uint \<times> block) option" where
  "put_direntry_align b offset m =
     (if offset AND 0x03 \<noteq> 0
      then (case memset m (b + unat offset) 0 1 of
              None \<Rightarrow> None
            | Some m' \<Rightarrow> put_direntry_align b (offset + 1) m')
      else Some (offset, m))"
  by pat_completeness auto

termination
proof (relation "measure (\<lambda>(b, offset, m). (4 - unat offset mod 4) mod 4)")
  show "wf (measure (\<lambda>(b, offset, m). (4 - unat offset mod 4) mod 4))" by simp
next
  fix b :: nat and offset :: uint and m x2 :: block
  assume nz: "offset AND 0x03 \<noteq> 0"
  have "offset AND 3 = offset AND mask 2" by (simp add: mask_eq_exp_minus_1)
  also have "\<dots> = take_bit 2 offset" by (simp only: take_bit_eq_mask)
  finally have "unat (offset AND 3) = unat (take_bit 2 offset)" by (rule arg_cong)
  also have "\<dots> = take_bit 2 (unat offset)" by (rule unsigned_take_bit_eq)
  also have "\<dots> = unat offset mod 4" by (simp add: take_bit_eq_mod)
  finally have r: "unat offset mod 4 \<noteq> 0" using nz by (metis unat_eq_zero)
  have "unat (offset + 1) = (unat offset + 1) mod 2 ^ 32"
    by (simp add: unat_word_ariths)
  moreover have "((unat offset + 1) mod 2 ^ 32) mod 4 = (unat offset + 1) mod 4"
    by (rule mod_mod_cancel) simp
  ultimately have s: "unat (offset + 1) mod 4 = (unat offset + 1) mod 4"
    by (simp only:)
  define n where "n = unat offset"
  have b: "n mod 4 < 4" by simp
  have r': "n mod 4 \<noteq> 0" unfolding n_def by (rule r)
  consider "n mod 4 = 1" | "n mod 4 = 2" | "n mod 4 = 3" using r' b by linarith
  then have "(4 - (n + 1) mod 4) mod 4 < (4 - n mod 4) mod 4"
  proof cases
    case 1 then have "(n + 1) mod 4 = 2" by (simp add: mod_Suc)
    with 1 show ?thesis by simp
  next
    case 2 then have "(n + 1) mod 4 = 3" by (simp add: mod_Suc)
    with 2 show ?thesis by simp
  next
    case 3 then have "(n + 1) mod 4 = 0" by (simp add: mod_Suc)
    with 3 show ?thesis by simp
  qed
  then have "(4 - (unat offset + 1) mod 4) mod 4 < (4 - unat offset mod 4) mod 4"
    unfolding n_def .
  then have "(4 - unat (offset + 1) mod 4) mod 4 < (4 - unat offset mod 4) mod 4"
    by (simp only: s)
  then show "((b, offset + 1, x2), (b, offset, m))
             \<in> measure (\<lambda>(b, offset, m). (4 - unat offset mod 4) mod 4)"
    by simp
qed

definition put_direntry :: "wstate \<Rightarrow> JOCTET list \<Rightarrow> uint \<Rightarrow> wstate option" where
  "put_direntry s data len =
     (let (into, m) = s in
      if len \<le> 4 then do {
        m1 \<leftarrow> memset m (buf into) 0 4;
        m2 \<leftarrow> memcpy m1 (buf into) data (unat len);
        Some (into, m2)
      } else do {
        (offset, m1) \<leftarrow> put_direntry_align (base into) (data_offset into) m;
        m2 \<leftarrow> put_uint32 m1 (buf into) offset;
        m3 \<leftarrow> memcpy m2 (base into + unat offset) data (unat len);
        Some (into\<lparr>data_offset := offset + len\<rparr>, m3)
      })"

definition put_stringentry :: "wstate \<Rightarrow> uint \<Rightarrow> string \<Rightarrow> int \<Rightarrow> wstate option" where
  "put_stringentry s tag str with_nul =
     (let (into, m) = s;
          stringlength = (of_nat (strlen str) :: uint) + (if with_nul \<noteq> 0 then 1 else 0) in
      do {
        m1 \<leftarrow> put_uint16 m (buf into) tag;
        m2 \<leftarrow> put_uint16 m1 (buf into + 2) TIFF_TYPE_ASCII;
        m3 \<leftarrow> put_uint32 m2 (buf into + 4) stringlength;
        (into', m4) \<leftarrow> put_direntry (into\<lparr>buf := buf into + 8\<rparr>, m3) (c_str str) stringlength;
        Some (into'\<lparr>buf := buf into' + 4\<rparr>, m4)
      })"

text \<open>\<open>ctx_coord\<close> is declared outside this file; its four fields used here
  (\<open>x\<close>, \<open>y\<close>, \<open>width\<close>, \<open>height\<close>) are C \<open>int\<close>s, cast to \<open>uint\<close> at the call.\<close>

record ctx_coord =
  coord_x :: int
  coord_y :: int
  coord_width :: int
  coord_height :: int

definition put_subjectarea :: "wstate \<Rightarrow> ctx_coord \<Rightarrow> wstate option" where
  "put_subjectarea s box =
     (let (into, m) = s; ool = base into + unat (data_offset into) in
      do {
        m1 \<leftarrow> put_uint16 m (buf into) EXIF_TAG_SUBJECT_AREA;
        m2 \<leftarrow> put_uint16 m1 (buf into + 2) TIFF_TYPE_USHORT;
        m3 \<leftarrow> put_uint32 m2 (buf into + 4) 4;
        m4 \<leftarrow> put_uint32 m3 (buf into + 8) (data_offset into);
        m5 \<leftarrow> put_uint16 m4 ool (word_of_int (coord_x box));
        m6 \<leftarrow> put_uint16 m5 (ool + 2) (word_of_int (coord_y box));
        m7 \<leftarrow> put_uint16 m6 (ool + 4) (word_of_int (coord_width box));
        m8 \<leftarrow> put_uint16 m7 (ool + 6) (word_of_int (coord_height box));
        Some (into\<lparr>buf := buf into + 12, data_offset := data_offset into + 8\<rparr>, m8)
      })"

section \<open>The metadata record\<close>

record tm =
  tm_sec :: int
  tm_min :: int
  tm_hour :: int
  tm_mday :: int
  tm_mon :: int
  tm_year :: int
  tm_gmtoff :: int

record timespec =
  tv_sec :: int
  tv_nsec :: int

text \<open>Of the camera object only the configured description template
  \<open>cam->cfg->picture_exif\<close> is read here.\<close>

record cls_camera =
  picture_exif :: string

record ctx_exif_info =
  cam :: cls_camera
  ts_in1 :: "timespec option"
  box :: "ctx_coord option"
  timestamp_tm :: tm
  description :: "string option"
  datetime :: "string option"
  subtime :: "string option"
  ifd0_tagcount :: uint
  ifd1_tagcount :: uint
  datasize :: uint
  ifds_size :: uint
  writing :: tiff_writing

section \<open>Formatting the timestamp\<close>

text \<open>The components of a \<open>struct tm\<close> are C \<open>int\<close>s; the sums \<open>tm_year + 1900\<close>
  and \<open>tm_mon + 1\<close> are taken not to overflow, as holds for every time \<open>localtime_r\<close>
  converts.\<close>

text \<open>The decimal digits of a number that is not negative.\<close>

function digits :: "int \<Rightarrow> string" where
  "digits n =
     (if n < 10 then [char_of (48 + n)] else digits (n div 10) @ [char_of (48 + n mod 10)])"
  by pat_completeness auto

termination
  by (relation "measure nat") auto

text \<open>The conversion \<open>%0<w>d\<close> of \<open>printf\<close>: the sign counts in the width and the
  zeros come after it.\<close>

definition fmt_0d :: "nat \<Rightarrow> int \<Rightarrow> string" where
  "fmt_0d w v =
     (if v < 0
      then CHR ''-'' # replicate (w - 1 - length (digits (- v))) CHR ''0'' @ digits (- v)
      else replicate (w - length (digits v)) CHR ''0'' @ digits v)"

text \<open>\<open>snprintf (buf, size, ...)\<close> keeps at most \<open>size - 1\<close> characters.\<close>

definition snprintf :: "nat \<Rightarrow> string \<Rightarrow> string" where
  "snprintf n s = take (n - 1) s"

text \<open>What the function reads from outside: the clock, the time zone database behind
  \<open>localtime_r\<close>, the expansion of the description template by \<open>mystrftime\<close>, and the
  contents of the blocks \<open>mymalloc\<close> hands out (the three counters of the fresh
  \<open>ctx_exif_info\<close> that nothing assigns before they are incremented, and the bytes of
  the fresh marker block).\<close>

record env =
  clock_gettime :: timespec
  localtime_r :: "int \<Rightarrow> tm"
  mystrftime :: "cls_camera \<Rightarrow> string \<Rightarrow> string"
  fresh_ifd0_tagcount :: uint
  fresh_ifd1_tagcount :: uint
  fresh_datasize :: uint
  fresh_bytes :: "nat \<Rightarrow> JOCTET"

definition jpgutl_exif_date :: "env \<Rightarrow> ctx_exif_info \<Rightarrow> ctx_exif_info" where
  "jpgutl_exif_date e exif_info =
     (let ts1 = (case ts_in1 exif_info of None \<Rightarrow> clock_gettime e | Some t \<Rightarrow> t);
          t = localtime_r e (tv_sec ts1);
          tmpbuf = snprintf 45
            (fmt_0d 4 (tm_year t + 1900) @ '':'' @ fmt_0d 2 (tm_mon t + 1) @ '':'' @
             fmt_0d 2 (tm_mday t) @ '' '' @ fmt_0d 2 (tm_hour t) @ '':'' @
             fmt_0d 2 (tm_min t) @ '':'' @ fmt_0d 2 (tm_sec t))
      in exif_info\<lparr>
           timestamp_tm := t,
           datetime := Some (snprintf 22 (take 21 tmpbuf)),
           subtime := None,
           description :=
             (if picture_exif (cam exif_info) \<noteq> []
              then Some (mystrftime e (cam exif_info) (picture_exif (cam exif_info)))
              else None)\<rparr>)"

section \<open>The inventory pass\<close>

definition jpgutl_exif_tags :: "ctx_exif_info \<Rightarrow> ctx_exif_info" where
  "jpgutl_exif_tags exif_info =
     (let i1 = (case description exif_info of
                  Some d \<Rightarrow> exif_info\<lparr>
                      ifd0_tagcount := ifd0_tagcount exif_info + 1,
                      datasize := datasize exif_info + (5 + of_nat (strlen d))\<rparr>
                | None \<Rightarrow> exif_info);
          i2 = (case datetime i1 of
                  Some d \<Rightarrow> i1\<lparr>
                      ifd0_tagcount := ifd0_tagcount i1 + 1 + 1,
                      ifd1_tagcount := ifd1_tagcount i1 + 1,
                      datasize := datasize i1 + 2 * (5 + of_nat (strlen d))\<rparr>
                | None \<Rightarrow> i1);
          i3 = (case subtime i2 of
                  Some d \<Rightarrow> i2\<lparr>
                      ifd1_tagcount := ifd1_tagcount i2 + 1,
                      datasize := datasize i2 + (5 + of_nat (strlen d))\<rparr>
                | None \<Rightarrow> i2);
          i4 = (case box i3 of
                  Some b \<Rightarrow> i3\<lparr>
                      ifd1_tagcount := ifd1_tagcount i3 + 1,
                      datasize := datasize i3 + 2 * 4\<rparr>
                | None \<Rightarrow> i3);
          i5 = (if ifd1_tagcount i4 > 0
                then i4\<lparr>ifd0_tagcount := ifd0_tagcount i4 + 1,
                        ifd1_tagcount := ifd1_tagcount i4 + 1\<rparr>
                else i4)
      in i5\<lparr>ifds_size :=
              (if ifd1_tagcount i5 > 0 then 12 * ifd1_tagcount i5 + 6 else 0) +
              (if ifd0_tagcount i5 > 0 then 12 * ifd0_tagcount i5 + 6 else 0)\<rparr>)"

section \<open>The serialization pass\<close>

definition jpgutl_exif_writeifd0 :: "ctx_exif_info \<Rightarrow> block \<Rightarrow> (ctx_exif_info \<times> block) option" where
  "jpgutl_exif_writeifd0 exif_info m = do {
     m0 \<leftarrow> put_uint16 m (buf (writing exif_info)) (ifd0_tagcount exif_info);
     s1 \<leftarrow> (case description exif_info of
             Some d \<Rightarrow> put_stringentry ((writing exif_info)\<lparr>buf := buf (writing exif_info) + 2\<rparr>, m0)
                         TIFF_TAG_IMAGE_DESCRIPTION d 1
           | None \<Rightarrow> Some ((writing exif_info)\<lparr>buf := buf (writing exif_info) + 2\<rparr>, m0));
     s2 \<leftarrow> (case datetime exif_info of
             Some d \<Rightarrow> put_stringentry s1 TIFF_TAG_DATETIME d 1
           | None \<Rightarrow> Some s1);
     s3 \<leftarrow> (if ifd1_tagcount exif_info > 0
           then do {
             m1 \<leftarrow> memcpy (snd s2) (buf (fst s2)) exif_subifd_tag 8;
             m2 \<leftarrow> put_uint32 m1 (buf (fst s2) + 8) (8 + 6 + 12 * ifd0_tagcount exif_info);
             Some ((fst s2)\<lparr>buf := buf (fst s2) + 12\<rparr>, m2)
           }
           else Some s2);
     s4 \<leftarrow> (case datetime exif_info of
             Some d \<Rightarrow> do {
               m1 \<leftarrow> memcpy (snd s3) (buf (fst s3)) exif_tzoffset_tag 12;
               m2 \<leftarrow> put_sint16 m1 (buf (fst s3) + 8)
                      (tm_gmtoff (timestamp_tm exif_info) sdiv 3600);
               Some ((fst s3)\<lparr>buf := buf (fst s3) + 12\<rparr>, m2)
             }
           | None \<Rightarrow> Some s3);
     m5 \<leftarrow> put_uint32 (snd s4) (buf (fst s4)) 0;
     Some (exif_info\<lparr>writing := (fst s4)\<lparr>buf := buf (fst s4) + 4\<rparr>\<rparr>, m5)
   }"

definition jpgutl_exif_writeifd1 :: "ctx_exif_info \<Rightarrow> block \<Rightarrow> (ctx_exif_info \<times> block) option" where
  "jpgutl_exif_writeifd1 exif_info m =
     (if ifd1_tagcount exif_info > 0 then do {
        m0 \<leftarrow> put_uint16 m (buf (writing exif_info)) (ifd1_tagcount exif_info);
        m1 \<leftarrow> memcpy m0 (buf (writing exif_info) + 2) exif_version_tag 12;
        s1 \<leftarrow> (case datetime exif_info of
                Some d \<Rightarrow> put_stringentry ((writing exif_info)\<lparr>buf := buf (writing exif_info) + 14\<rparr>, m1)
                            EXIF_TAG_ORIGINAL_DATETIME d 1
              | None \<Rightarrow> Some ((writing exif_info)\<lparr>buf := buf (writing exif_info) + 14\<rparr>, m1));
        s2 \<leftarrow> (case box exif_info of
                Some b \<Rightarrow> put_subjectarea s1 b
              | None \<Rightarrow> Some s1);
        s3 \<leftarrow> (case subtime exif_info of
                Some d \<Rightarrow> put_stringentry s2 EXIF_TAG_ORIGINAL_DATETIME_SS d 0
              | None \<Rightarrow> Some s2);
        m4 \<leftarrow> put_uint32 (snd s3) (buf (fst s3)) 0;
        Some (exif_info\<lparr>writing := (fst s3)\<lparr>buf := buf (fst s3) + 4\<rparr>\<rparr>, m4)
      } else Some (exif_info, m))"

text \<open>\<open>mymalloc (n)\<close>: a fresh block of \<open>n\<close> bytes whose contents are whatever the
  allocator left there.\<close>

definition mymalloc :: "(nat \<Rightarrow> JOCTET) \<Rightarrow> nat \<Rightarrow> block" where
  "mymalloc fresh n = map fresh [0..<n]"

text \<open>The second half of \<open>jpgutl_exif\<close>, from the test of \<open>ifds_size\<close> on: the marker
  block and the returned marker length. A return of 0 leaves \<open>*exif\<close> alone; it is the
  pair of the empty block and 0.\<close>

definition jpgutl_exif_marker :: "(nat \<Rightarrow> JOCTET) \<Rightarrow> ctx_exif_info \<Rightarrow> (block \<times> uint) option" where
  "jpgutl_exif_marker fresh exif_info =
     (if ifds_size exif_info = 0 then Some ([], 0)
      else
        let buffer_size = 14 + ifds_size exif_info + datasize exif_info in do {
          marker \<leftarrow> memcpy (mymalloc fresh (unat buffer_size)) 0 exif_marker_start 14;
          (i1, marker1) \<leftarrow> jpgutl_exif_writeifd0
             (exif_info\<lparr>writing := \<lparr>base = 6, buf = 14, data_offset = 8 + ifds_size exif_info\<rparr>\<rparr>)
             marker;
          (i2, marker2) \<leftarrow> jpgutl_exif_writeifd1 i1 marker1;
          Some (marker2, data_offset (writing i2) + 6)
        })"

text \<open>The first half of \<open>jpgutl_exif\<close>. The \<open>memset\<close> there clears
  \<open>sizeof (sizeof (ctx_exif_info))\<close> bytes, the size of a \<open>size_t\<close>, which covers the
  first field \<open>cam\<close> only; \<open>cam\<close>, \<open>ts_in1\<close> and \<open>box\<close> are then assigned, and
  \<open>jpgutl_exif_date\<close> assigns \<open>timestamp_tm\<close>, \<open>datetime\<close>, \<open>subtime\<close> and
  \<open>description\<close>. The three counters keep what the allocator left in the block;
  \<open>ifds_size\<close> and \<open>writing\<close> are assigned before they are read.\<close>

definition exif_info_init :: "env \<Rightarrow> cls_camera \<Rightarrow> timespec option \<Rightarrow> ctx_coord option \<Rightarrow> ctx_exif_info" where
  "exif_info_init e c ts b =
     \<lparr>cam = c, ts_in1 = ts, box = b,
      timestamp_tm = \<lparr>tm_sec = 0, tm_min = 0, tm_hour = 0, tm_mday = 0, tm_mon = 0,
                      tm_year = 0, tm_gmtoff = 0\<rparr>,
      description = None, datetime = None, subtime = None,
      ifd0_tagcount = fresh_ifd0_tagcount e,
      ifd1_tagcount = fresh_ifd1_tagcount e,
      datasize = fresh_datasize e,
      ifds_size = 0,
      writing = \<lparr>base = 0, buf = 0, data_offset = 0\<rparr>\<rparr>"

definition jpgutl_exif :: "env \<Rightarrow> cls_camera \<Rightarrow> timespec option \<Rightarrow> ctx_coord option \<Rightarrow> (block \<times> uint) option" where
  "jpgutl_exif e c ts b =
     jpgutl_exif_marker (fresh_bytes e)
       (jpgutl_exif_tags (jpgutl_exif_date e (exif_info_init e c ts b)))"

text \<open>\<open>put_jpeg_exif\<close>: the markers handed to \<open>jpeg_write_marker\<close>, each with its
  marker code and the \<open>exif_len\<close> bytes read from \<open>exif\<close>. \<open>JPEG_APP0\<close> is the
  constant of \<open>jpeglib.h\<close>. \<open>write_exif_marker\<close> is the part of \<open>put_jpeg_exif\<close>
  after the call of \<open>jpgutl_exif\<close>: the test of \<open>exif_len\<close> and the write.\<close>

definition JPEG_APP0 :: nat where "JPEG_APP0 = 0xE0"

definition write_exif_marker :: "block \<times> uint \<Rightarrow> (nat \<times> JOCTET list) list option" where
  "write_exif_marker r =
     (let (exif, exif_len) = r in
      if exif_len > 0
      then (if unat exif_len \<le> length exif
            then Some [(JPEG_APP0 + 1, take (unat exif_len) exif)] else None)
      else Some [])"

definition put_jpeg_exif :: "env \<Rightarrow> cls_camera \<Rightarrow> timespec option \<Rightarrow> ctx_coord option \<Rightarrow> (nat \<times> JOCTET list) list option" where
  "put_jpeg_exif e c ts1 b = do {
     r \<leftarrow> jpgutl_exif e c ts1 b;
     write_exif_marker r
   }"

section \<open>Reading a marker back\<close>

text \<open>Big-endian reads, used to state what a finished marker contains.\<close>

definition get_uint16 :: "block \<Rightarrow> nat \<Rightarrow> nat" where
  "get_uint16 m p = 256 * unat (m ! p) + unat (m ! (p + 1))"

definition get_uint32 :: "block \<Rightarrow> nat \<Rightarrow> nat" where
  "get_uint32 m p = 65536 * get_uint16 m p + get_uint16 m (p + 2)"

text \<open>The tag ids of the \<open>n\<close> directory entries of the IFD that starts at index \<open>p\<close>.\<close>

definition ifd_tags :: "block \<Rightarrow> nat \<Rightarrow> nat \<Rightarrow> nat list" where
  "ifd_tags m p n = map (\<lambda>i. get_uint16 m (p + 2 + 12 * i)) [0..<n]"

section \<open>Sizes in natural numbers\<close>

text \<open>The quantities of the inventory pass as natural numbers, as functions of which
  optional fields are present and how long the strings are. They are used to state and
  prove the properties of the two passes; the code computes in \<open>uint\<close>.\<close>

definition present :: "'a option \<Rightarrow> nat" where
  "present d = (case d of None \<Rightarrow> 0 | Some _ \<Rightarrow> 1)"

text \<open>What the inventory pass reserves for a string, and the most the serialization
  pass can use for it (three bytes of alignment, the string and its NUL).\<close>

definition budget :: "string option \<Rightarrow> nat" where
  "budget d = (case d of None \<Rightarrow> 0 | Some s \<Rightarrow> 5 + length s)"

definition cost :: "string option \<Rightarrow> nat" where
  "cost d = (case d of None \<Rightarrow> 0 | Some s \<Rightarrow> 4 + length s)"

definition ifd1_fields :: "ctx_exif_info \<Rightarrow> nat" where
  "ifd1_fields i = present (datetime i) + present (subtime i) + present (box i)"

definition ifd1_count :: "ctx_exif_info \<Rightarrow> nat" where
  "ifd1_count i = (if ifd1_fields i > 0 then ifd1_fields i + 1 else 0)"

definition ifd0_count :: "ctx_exif_info \<Rightarrow> nat" where
  "ifd0_count i =
     present (description i) + 2 * present (datetime i) + (if ifd1_fields i > 0 then 1 else 0)"

definition ifds_bytes :: "ctx_exif_info \<Rightarrow> nat" where
  "ifds_bytes i =
     (if ifd1_count i > 0 then 12 * ifd1_count i + 6 else 0) +
     (if ifd0_count i > 0 then 12 * ifd0_count i + 6 else 0)"

definition data_budget :: "ctx_exif_info \<Rightarrow> nat" where
  "data_budget i =
     budget (description i) + 2 * budget (datetime i) + budget (subtime i) + 8 * present (box i)"

definition data_cost :: "ctx_exif_info \<Rightarrow> nat" where
  "data_cost i =
     cost (description i) + 2 * cost (datetime i) + cost (subtime i) + 8 * present (box i)"

text \<open>The tag ids each directory is written with, in the order of the writes.\<close>

definition ifd0_written :: "ctx_exif_info \<Rightarrow> nat list" where
  "ifd0_written i =
     (if description i \<noteq> None then [0x010E] else []) @
     (if datetime i \<noteq> None then [0x0132] else []) @
     (if ifd1_tagcount i > 0 then [0x8769] else []) @
     (if datetime i \<noteq> None then [0x882A] else [])"

definition ifd1_written :: "ctx_exif_info \<Rightarrow> nat list" where
  "ifd1_written i =
     [0x9000] @
     (if datetime i \<noteq> None then [0x9003] else []) @
     (if box i \<noteq> None then [0x9214] else []) @
     (if subtime i \<noteq> None then [0x9291] else [])"

text \<open>The padding the alignment loop adds at offset \<open>n\<close>.\<close>

definition pad4 :: "nat \<Rightarrow> nat" where
  "pad4 n = (4 - n mod 4) mod 4"

section \<open>Decoding\<close>

text \<open>The codec is outside this file. A call into it is seen here through the messages
  it passes to \<open>emit_message\<close>, in order, and through whether it ends in \<open>error_exit\<close>.
  Of the message codes only \<open>JWRN_EXTRANEOUS_DATA\<close> is told apart.\<close>

datatype J_MESSAGE_CODE = JWRN_EXTRANEOUS_DATA | JMSG_OTHER nat

record jpeg_message =
  msg_code :: J_MESSAGE_CODE
  msg_level :: int

record codec_call =
  emitted :: "jpeg_message list"
  error_exit :: bool

text \<open>\<open>warning_seen\<close> is a C \<open>int\<close>; counting past \<open>INT_MAX\<close> is undefined in C and
  is not represented.\<close>

record jpgutl_error_mgr =
  warning_seen :: int

definition jpgutl_emit_message :: "jpgutl_error_mgr \<Rightarrow> jpeg_message \<Rightarrow> jpgutl_error_mgr" where
  "jpgutl_emit_message myerr msg =
     (if msg_code msg \<noteq> JWRN_EXTRANEOUS_DATA \<and> msg_level msg < 0
      then myerr\<lparr>warning_seen := warning_seen myerr + 1\<rparr>
      else myerr)"

text \<open>One call into the codec: every message goes through \<open>jpgutl_emit_message\<close>;
  \<open>jpgutl_error_exit\<close> jumps back to the \<open>setjmp\<close> point, which is the value \<open>None\<close>.\<close>

definition codec :: "codec_call \<Rightarrow> jpgutl_error_mgr \<Rightarrow> jpgutl_error_mgr option" where
  "codec c jerr =
     (if error_exit c then None else Some (foldl jpgutl_emit_message jerr (emitted c)))"

text \<open>The behaviour of the codec on one compressed image: what each call does, the
  output dimensions it reports after \<open>jpeg_start_decompress\<close>, and the samples it
  leaves in \<open>line[0]\<close> at the \<open>k\<close>-th call of \<open>jpeg_read_scanlines\<close>. With
  \<open>out_color_space = JCS_YCbCr\<close> a line holds three samples for each pixel, and a call
  that returns delivers one line (the source manager never suspends). Creating the
  decompressor and allocating the line buffer are taken to succeed.\<close>

record decompress =
  on_read_header :: codec_call
  on_start_decompress :: codec_call
  output_width :: uint
  output_height :: uint
  on_read_scanlines :: "nat \<Rightarrow> codec_call"
  scanline :: "nat \<Rightarrow> nat \<Rightarrow> JOCTET"
  on_finish_decompress :: codec_call

text \<open>The caller's plane buffer \<open>img_out\<close> is a store from offsets to bytes;
  \<open>img_y\<close>, \<open>img_cb\<close> and \<open>img_cr\<close> are offsets into it.\<close>

type_synonym image = "nat \<Rightarrow> JOCTET"

record decode_state =
  jerr :: jpgutl_error_mgr
  img :: image
  img_y :: nat
  img_cb :: nat
  img_cr :: nat
  offset_y :: "8 word"

text \<open>The inner loop \<open>for (i = 0; i < output_width * 3; i += 3)\<close>. The bound \<open>n\<close> is
  the \<open>uint\<close> product; \<open>i\<close> is a multiple of 3 below it, so \<open>i + 3\<close> does not wrap.\<close>

function demux_line :: "nat \<Rightarrow> nat \<Rightarrow> (nat \<Rightarrow> JOCTET) \<Rightarrow> nat \<Rightarrow> nat \<Rightarrow> nat \<Rightarrow> image \<Rightarrow> image" where
  "demux_line i n wline py pcb pcr im =
     (if i < n
      then demux_line (i + 3) n wline py pcb pcr
             (let im1 = im(py + i div 3 := wline i)
              in if odd i
                 then im1(pcb + (i div 3) div 2 := wline (i + 1),
                          pcr + (i div 3) div 2 := wline (i + 2))
                 else im1)
      else im)"
  by pat_completeness auto

termination
  by (relation "measure (\<lambda>(i, n, wline, py, pcb, pcr, im). n - i)") auto

text \<open>The outer loop \<open>while (output_scanline < output_height)\<close>, \<open>k\<close> lines read and
  \<open>n\<close> to go. The first component of the result tells whether \<open>error_exit\<close> was
  taken.\<close>

fun read_lines :: "decompress \<Rightarrow> nat \<Rightarrow> nat \<Rightarrow> decode_state \<Rightarrow> bool \<times> decode_state" where
  "read_lines d k 0 s = (False, s)"
| "read_lines d k (Suc n) s =
     (case codec (on_read_scanlines d k) (jerr s) of
        None \<Rightarrow> (True, s)
      | Some j \<Rightarrow>
          read_lines d (Suc k) n
            (s\<lparr>jerr := j,
               img := demux_line 0 (unat (output_width d * 3)) (scanline d k)
                        (img_y s) (img_cb s) (img_cr s) (img s),
               img_y := img_y s + unat (output_width d),
               img_cb := (if offset_y s AND 1 \<noteq> 0
                          then img_cb s + unat (output_width d div 2) else img_cb s),
               img_cr := (if offset_y s AND 1 \<noteq> 0
                          then img_cr s + unat (output_width d div 2) else img_cr s),
               offset_y := offset_y s + 1\<rparr>))"

text \<open>\<open>jpgutl_decode_jpeg\<close>: the return value and the plane buffer afterwards.\<close>

definition jpgutl_decode_jpeg :: "decompress \<Rightarrow> uint \<Rightarrow> uint \<Rightarrow> image \<Rightarrow> int \<times> image" where
  "jpgutl_decode_jpeg d width height img_out =
     (case codec (on_read_header d) \<lparr>warning_seen = 0\<rparr> of
        None \<Rightarrow> (- 1, img_out)
      | Some j1 \<Rightarrow>
     (case codec (on_start_decompress d) j1 of
        None \<Rightarrow> (- 1, img_out)
      | Some j2 \<Rightarrow>
     if output_width d = 0 \<or> output_height d = 0 then (- 1, img_out)
     else if output_width d \<noteq> width \<or> output_height d \<noteq> height then (- 1, img_out)
     else
       (case read_lines d 0 (unat (output_height d))
               \<lparr>jerr = j2, img = img_out, img_y = 0,
                img_cb = unat (output_width d * output_height d),
                img_cr = unat (output_width d * output_height d)
                         + unat ((output_width d * output_height d) div 4),
                offset_y = 0\<rparr> of
          (True, s) \<Rightarrow> (- 1, img s)
        | (False, s) \<Rightarrow>
       (case codec (on_finish_decompress d) (jerr s) of
          None \<Rightarrow> (- 1, img s)
        | Some j3 \<Rightarrow> if warning_seen j3 > 2 then (- 1, img s) else (0, img s)))))"

text \<open>The number of messages of a call that \<open>jpgutl_emit_message\<close> counts.\<close>

definition counted :: "codec_call \<Rightarrow> nat" where
  "counted c =
     length (filter (\<lambda>msg. msg_code msg \<noteq> JWRN_EXTRANEOUS_DATA \<and> msg_level msg < 0) (emitted c))"

section \<open>Row groups for the raw-data encoder\<close>

text \<open>The arrays \<open>y\<close>, \<open>cb\<close> and \<open>cr\<close> of sixteen row pointers each. A \<open>JSAMPROW\<close> is a null pointer, a pointer into \<open>input_image\<close> (by offset), or
  whatever the uninitialised array on the stack held.\<close>

datatype JSAMPROW = Null | Row int | Uninitialised

record row_arrays =
  y_rows :: "JSAMPROW list"
  cb_rows :: "JSAMPROW list"
  cr_rows :: "JSAMPROW list"

text \<open>The body of \<open>for (i = 0; i < 16; i++)\<close> in \<open>jpgutl_put_yuv420p\<close>. The operands
  are C \<open>int\<close>s; \<open>sdiv\<close> is the division of C.\<close>

definition fill_row :: "int \<Rightarrow> int \<Rightarrow> int \<Rightarrow> row_arrays \<Rightarrow> nat \<Rightarrow> row_arrays" where
  "fill_row w h j a i =
     (if w * (int i + j) < w * h
      then (let a1 = a\<lparr>y_rows := (y_rows a)[i := Row (w * (int i + j))]\<rparr>
            in if i mod 2 = 0
               then a1\<lparr>cb_rows := (cb_rows a1)[i div 2 :=
                               Row (w * h + w sdiv 2 * ((int i + j) sdiv 2))],
                       cr_rows := (cr_rows a1)[i div 2 :=
                               Row (w * h + w * h sdiv 4 + w sdiv 2 * ((int i + j) sdiv 2))]\<rparr>
               else a1)
      else a\<lparr>y_rows := (y_rows a)[i := Null], cb_rows := (cb_rows a)[i := Null],
             cr_rows := (cr_rows a)[i := Null]\<rparr>)"

text \<open>The loop \<open>for (j = 0; j < height; j += 16)\<close>: the arrays handed to each
  \<open>jpeg_write_raw_data\<close>, in order.\<close>

function row_groups :: "int \<Rightarrow> int \<Rightarrow> int \<Rightarrow> row_arrays \<Rightarrow> row_arrays list" where
  "row_groups w h j a =
     (if j < h
      then (let a' = foldl (fill_row w h j) a [0..<16] in a' # row_groups w h (j + 16) a')
      else [])"
  by pat_completeness auto

termination
  by (relation "measure (\<lambda>(w, h, j, a). nat (h - j))") auto

definition jpgutl_put_yuv420p_rows :: "int \<Rightarrow> int \<Rightarrow> row_arrays list" where
  "jpgutl_put_yuv420p_rows w h =
     row_groups w h 0
       \<lparr>y_rows = replicate 16 Uninitialised, cb_rows = replicate 16 Uninitialised,
        cr_rows = replicate 16 Uninitialised\<rparr>"

section \<open>Observations and example inputs\<close>

text \<open>The size of the allocated marker block and the returned marker length.\<close>

definition marker_sizes :: "(block \<times> uint) option \<Rightarrow> (nat \<times> nat) option" where
  "marker_sizes r = (case r of None \<Rightarrow> None | Some (marker, len) \<Rightarrow> Some (length marker, unat len))"

text \<open>The counters of a \<open>ctx_exif_info\<close> start at zero.\<close>

definition zeroed :: "ctx_exif_info \<Rightarrow> bool" where
  "zeroed i \<longleftrightarrow> ifd0_tagcount i = 0 \<and> ifd1_tagcount i = 0 \<and> datasize i = 0"

definition marker_of :: "(block \<times> uint) option \<Rightarrow> block" where
  "marker_of r = (case r of None \<Rightarrow> [] | Some (marker, len) \<Rightarrow> marker)"

text \<open>The bytes a directory entry at index \<open>p\<close> refers to out of line: \<open>count\<close> bytes
  at its value offset, which is relative to the TIFF header at index 6.\<close>

definition entry_payload :: "block \<Rightarrow> nat \<Rightarrow> JOCTET list" where
  "entry_payload m p = take (get_uint32 m (p + 4)) (drop (6 + get_uint32 m (p + 8)) m)"

text \<open>A decode runs clean when no call into the codec ends in \<open>error_exit\<close>;
  \<open>warnings\<close> is the number of messages \<open>jpgutl_emit_message\<close> counts over the
  whole decode.\<close>

definition clean :: "decompress \<Rightarrow> bool" where
  "clean d \<longleftrightarrow>
     \<not> error_exit (on_read_header d) \<and> \<not> error_exit (on_start_decompress d) \<and>
     list_all (\<lambda>k. \<not> error_exit (on_read_scanlines d k)) [0..<unat (output_height d)] \<and>
     \<not> error_exit (on_finish_decompress d)"

definition warnings :: "decompress \<Rightarrow> nat" where
  "warnings d =
     counted (on_read_header d) + counted (on_start_decompress d) +
     sum_list (map (\<lambda>k. counted (on_read_scanlines d k)) [0..<unat (output_height d)]) +
     counted (on_finish_decompress d)"

text \<open>Example inputs: a timestamp in 2024 and one in the year 10000, a camera with and
  without a description template, a region, and metadata records with chosen fields.\<close>

definition tm_2024 :: tm where
  "tm_2024 = \<lparr>tm_sec = 9, tm_min = 5, tm_hour = 13, tm_mday = 7, tm_mon = 2, tm_year = 124,
              tm_gmtoff = 3600\<rparr>"

definition tm_10000 :: tm where
  "tm_10000 = \<lparr>tm_sec = 0, tm_min = 0, tm_hour = 0, tm_mday = 1, tm_mon = 0, tm_year = 8100,
               tm_gmtoff = 0\<rparr>"

definition localtime_2024 :: "int \<Rightarrow> tm" where
  "localtime_2024 t = tm_2024"

definition localtime_10000 :: "int \<Rightarrow> tm" where
  "localtime_10000 t = tm_10000"

definition strftime_plain :: "cls_camera \<Rightarrow> string \<Rightarrow> string" where
  "strftime_plain c s = s"

definition fresh_aa :: "nat \<Rightarrow> JOCTET" where
  "fresh_aa n = 0xAA"

definition env_2024 :: env where
  "env_2024 = \<lparr>clock_gettime = \<lparr>tv_sec = 0, tv_nsec = 0\<rparr>, localtime_r = localtime_2024,
               mystrftime = strftime_plain, fresh_ifd0_tagcount = 0, fresh_ifd1_tagcount = 0,
               fresh_datasize = 0, fresh_bytes = fresh_aa\<rparr>"

definition env_10000 :: env where
  "env_10000 = env_2024\<lparr>localtime_r := localtime_10000\<rparr>"


definition cam_plain :: cls_camera where
  "cam_plain = \<lparr>picture_exif = []\<rparr>"

definition cam_described :: cls_camera where
  "cam_described = \<lparr>picture_exif = ''Motion''\<rparr>"

definition box_10_20 :: ctx_coord where
  "box_10_20 = \<lparr>coord_x = 10, coord_y = 20, coord_width = 4, coord_height = 6\<rparr>"

definition info_datetime_only :: ctx_exif_info where
  "info_datetime_only =
     (exif_info_init env_2024 cam_plain None None)\<lparr>datetime := Some ''2024:03:07 13:05:09''\<rparr>"

definition info_box_only :: ctx_exif_info where
  "info_box_only = exif_info_init env_2024 cam_plain None (Some box_10_20)"

definition info_description_box :: ctx_exif_info where
  "info_description_box =
     (exif_info_init env_2024 cam_described None (Some box_10_20))\<lparr>description := Some ''abcd''\<rparr>"

definition info_all :: ctx_exif_info where
  "info_all =
     (exif_info_init env_2024 cam_described None (Some box_10_20))
       \<lparr>description := Some ''Motion'', datetime := Some ''2024:03:07 13:05:09'',
        subtime := Some ''123456''\<rparr>"

text \<open>Example codec behaviour: an image two pixels wide whose every line comes with one
  counted warning.\<close>

definition quiet_call :: codec_call where
  "quiet_call = \<lparr>emitted = [], error_exit = False\<rparr>"

definition warning_call :: codec_call where
  "warning_call = \<lparr>emitted = [\<lparr>msg_code = JMSG_OTHER 0, msg_level = - 1\<rparr>], error_exit = False\<rparr>"

definition warn_every_line :: "nat \<Rightarrow> codec_call" where
  "warn_every_line k = warning_call"

definition grey_line :: "nat \<Rightarrow> nat \<Rightarrow> JOCTET" where
  "grey_line k i = 0x80"

definition stub :: "uint \<Rightarrow> decompress" where
  "stub h = \<lparr>on_read_header = quiet_call, on_start_decompress = quiet_call,
             output_width = 2, output_height = h, on_read_scanlines = warn_every_line,
             scanline = grey_line, on_finish_decompress = quiet_call\<rparr>"

definition blank_image :: image where
  "blank_image n = 0"

section \<open>Stores stay inside the block\<close>

lemma memcpy_ok:
  assumes "n \<le> length src" "p + n \<le> length m"
  shows "\<exists>m'. memcpy m p src n = Some m'"
  using assms by (simp add: memcpy_def)

lemma memcpy_SomeD:
  assumes "memcpy m p src n = Some m'"
  shows "length m' = length m" "\<And>i. i < p \<Longrightarrow> m' ! i = m ! i"
    "\<And>i. i < n \<Longrightarrow> m' ! (p + i) = src ! i"
  using assms by (auto simp: memcpy_def nth_append split: if_splits)

lemma put_uint16_ok:
  assumes "p + 2 \<le> length m"
  shows "\<exists>m'. put_uint16 m p v = Some m' \<and> length m' = length m \<and>
           (\<forall>i<p. m' ! i = m ! i) \<and>
           m' ! p = ucast (drop_bit 8 (v AND 0xFF00)) \<and> m' ! (p + 1) = ucast (v AND 0xFF)"
proof -
  obtain m' where m': "put_uint16 m p v = Some m'"
    unfolding put_uint16_def using memcpy_ok[of 2 _ p m] assms by force
  note d = memcpy_SomeD[OF m'[unfolded put_uint16_def]]
  have "m' ! (p + 0) = ucast (drop_bit 8 (v AND 0xFF00))" by (subst d(3)) simp_all
  moreover have "m' ! (p + 1) = ucast (v AND 0xFF)" by (subst d(3)) simp_all
  ultimately show ?thesis using m' d(1) d(2) by simp
qed

lemma put_sint16_ok:
  assumes "p + 2 \<le> length m"
  shows "\<exists>m'. put_sint16 m p v = Some m' \<and> length m' = length m \<and> (\<forall>i<p. m' ! i = m ! i)"
proof -
  obtain m' where m': "put_sint16 m p v = Some m'"
    unfolding put_sint16_def using memcpy_ok[of 2 _ p m] assms by force
  note d = memcpy_SomeD[OF m'[unfolded put_sint16_def]]
  show ?thesis using m' d(1) d(2) by simp
qed

lemma put_uint32_ok:
  assumes "p + 4 \<le> length m"
  shows "\<exists>m'. put_uint32 m p v = Some m' \<and> length m' = length m \<and> (\<forall>i<p. m' ! i = m ! i)"
proof -
  obtain m' where m': "put_uint32 m p v = Some m'"
    unfolding put_uint32_def using memcpy_ok[of 4 _ p m] assms by force
  note d = memcpy_SomeD[OF m'[unfolded put_uint32_def]]
  show ?thesis using m' d(1) d(2) by simp
qed

lemma memset_ok:
  assumes "p + n \<le> length m"
  shows "\<exists>m'. memset m p c n = Some m' \<and> length m' = length m \<and> (\<forall>i<p. m' ! i = m ! i)"
proof -
  obtain m' where m': "memset m p c n = Some m'"
    unfolding memset_def using memcpy_ok[of n "replicate n c" p m] assms by force
  note d = memcpy_SomeD[OF m'[unfolded memset_def]]
  show ?thesis using m' d(1) d(2) by simp
qed

subsection \<open>The alignment loop\<close>

lemma unat_and3: "unat ((x::uint) AND 3) = unat x mod 4"
proof -
  have "x AND 3 = x AND mask 2" by (simp add: mask_eq_exp_minus_1)
  also have "\<dots> = take_bit 2 x" by (simp only: take_bit_eq_mask)
  finally have "unat (x AND 3) = unat (take_bit 2 x)" by (rule arg_cong)
  also have "\<dots> = take_bit 2 (unat x)" by (rule unsigned_take_bit_eq)
  also have "\<dots> = unat x mod 4" by (simp add: take_bit_eq_mod)
  finally show ?thesis .
qed

lemma and3_mod4: "(x::uint) AND 3 = 0 \<longleftrightarrow> unat x mod 4 = 0"
  using unat_and3[of x] by (metis unat_eq_zero)


lemma pad4_le: "pad4 n \<le> 3"
  unfolding pad4_def by (simp add: less_Suc_eq_le[symmetric] numeral_3_eq_3[symmetric])

lemma pad4_zero: "n mod 4 = 0 \<Longrightarrow> pad4 n = 0"
  by (simp add: pad4_def)

lemma pad4_step: "n mod 4 \<noteq> 0 \<Longrightarrow> pad4 n = Suc (pad4 (Suc n))"
proof -
  assume a: "n mod 4 \<noteq> 0"
  have b: "n mod 4 < 4" by simp
  consider "n mod 4 = 1" | "n mod 4 = 2" | "n mod 4 = 3" using a b by linarith
  then show ?thesis
  proof cases
    case 1 then have "Suc n mod 4 = 2" by (simp add: mod_Suc)
    with 1 show ?thesis by (simp add: pad4_def)
  next
    case 2 then have "Suc n mod 4 = 3" by (simp add: mod_Suc)
    with 2 show ?thesis by (simp add: pad4_def)
  next
    case 3 then have "Suc n mod 4 = 0" by (simp add: mod_Suc)
    with 3 show ?thesis by (simp add: pad4_def)
  qed
qed

lemma pad4_aligned: "(n + pad4 n) mod 4 = 0"
proof -
  have b: "n mod 4 < 4" by simp
  have e: "(n + pad4 n) mod 4 = (n mod 4 + pad4 n) mod 4" by (simp add: mod_add_left_eq)
  consider "n mod 4 = 0" | "n mod 4 = 1" | "n mod 4 = 2" | "n mod 4 = 3" using b by linarith
  then have "(n mod 4 + pad4 n) mod 4 = 0"
    by cases (simp_all add: pad4_def)
  with e show ?thesis by (simp only:)
qed

lemma put_direntry_align_ok:
  assumes "b + unat offset + pad4 (unat offset) \<le> length m"
      and "unat offset + pad4 (unat offset) < 2 ^ 32"
  shows "\<exists>m'. put_direntry_align b offset m = Some (offset + of_nat (pad4 (unat offset)), m') \<and>
           length m' = length m \<and> (\<forall>i < b + unat offset. m' ! i = m ! i)"
  using assms
proof (induction b offset m rule: put_direntry_align.induct)
  case (1 b offset m)
  show ?case
  proof (cases "offset AND 3 = 0")
    case True
    then have "pad4 (unat offset) = 0" by (simp add: and3_mod4 pad4_zero)
    with True show ?thesis by (subst put_direntry_align.simps) simp
  next
    case False
    then have nz: "unat offset mod 4 \<noteq> 0" by (simp add: and3_mod4)
    then have ps: "pad4 (unat offset) = Suc (pad4 (Suc (unat offset)))" by (rule pad4_step)
    have lt: "unat offset + 1 < 2 ^ 32" using "1.prems"(2) ps by simp
    then have un: "unat (offset + 1) = Suc (unat offset)"
      by (simp add: unat_word_ariths)
    obtain m1 where m1: "memset m (b + unat offset) 0 1 = Some m1" "length m1 = length m"
      "\<forall>i < b + unat offset. m1 ! i = m ! i"
      using memset_ok[of "b + unat offset" 1 m 0] "1.prems"(1) ps by auto
    have p1: "b + unat (offset + 1) + pad4 (unat (offset + 1)) \<le> length m1"
      using "1.prems"(1) ps un m1(2) by simp
    have p2: "unat (offset + 1) + pad4 (unat (offset + 1)) < 2 ^ 32"
      using "1.prems"(2) ps un by simp
    from "1.IH"[OF _ m1(1) p1 p2] False
    obtain m' where m': "put_direntry_align b (offset + 1) m1 =
        Some (offset + 1 + of_nat (pad4 (unat (offset + 1))), m')"
      "length m' = length m1" "\<forall>i < b + unat (offset + 1). m' ! i = m1 ! i"
      by auto
    have eq: "offset + 1 + of_nat (pad4 (unat (offset + 1))) = offset + of_nat (pad4 (unat offset))"
      by (simp add: un ps)
    have "put_direntry_align b offset m = put_direntry_align b (offset + 1) m1"
      using False m1(1) by (subst put_direntry_align.simps) simp
    with m' eq m1 un show ?thesis by auto
  qed
qed


text \<open>Whatever the block, the offset the alignment loop ends at is a multiple of 4.\<close>

lemma put_direntry_align_aligned:
  "put_direntry_align b offset m = Some (offset', m') \<Longrightarrow> offset' AND 3 = 0"
proof (induction b offset m rule: put_direntry_align.induct)
  case (1 b offset m)
  show ?case
  proof (cases "offset AND 3 = 0")
    case True
    with "1.prems" show ?thesis by (subst (asm) put_direntry_align.simps) simp
  next
    case False
    with "1.prems" obtain m1 where m1: "memset m (b + unat offset) 0 1 = Some m1"
      and r: "put_direntry_align b (offset + 1) m1 = Some (offset', m')"
      by (subst (asm) put_direntry_align.simps) (simp split: option.splits)
    from "1.IH"[OF _ m1 r] False show ?thesis by simp
  qed
qed

subsection \<open>Directory entries\<close>

lemma put_direntry_ok:
  assumes inl: "buf w + 4 \<le> length m"
      and sep: "buf w + 4 \<le> base w + unat (data_offset w)"
      and src: "unat len \<le> length data"
      and room: "base w + unat (data_offset w) + 3 + unat len \<le> length m"
      and small: "length m < 2 ^ 32"
  shows "\<exists>w' m'. put_direntry (w, m) data len = Some (w', m') \<and>
           base w' = base w \<and> buf w' = buf w \<and> length m' = length m \<and>
           (\<forall>i < buf w. m' ! i = m ! i) \<and>
           unat (data_offset w) \<le> unat (data_offset w') \<and>
           unat (data_offset w') \<le> unat (data_offset w) + 3 + unat len"
proof (cases "len \<le> 4")
  case True
  then have l4: "unat len \<le> 4" by (simp add: word_le_nat_alt)
  obtain m1 where m1: "memset m (buf w) 0 4 = Some m1" "length m1 = length m"
    "\<forall>i < buf w. m1 ! i = m ! i"
    using memset_ok[OF inl, of 0] by auto
  obtain m2 where m2: "memcpy m1 (buf w) data (unat len) = Some m2"
    using memcpy_ok[of "unat len" data "buf w" m1] src l4 inl m1(2) by auto
  note d = memcpy_SomeD[OF m2]
  show ?thesis using True m1 m2 d(1) d(2) by (simp add: put_direntry_def)
next
  case False
  let ?o = "unat (data_offset w)"
  have p3: "pad4 ?o \<le> 3" by (rule pad4_le)
  have a1: "base w + ?o + pad4 ?o \<le> length m" using room p3 by simp
  have a2: "?o + pad4 ?o < 2 ^ 32" using room p3 small by simp
  let ?off = "data_offset w + of_nat (pad4 ?o)"
  obtain m1 where m1: "put_direntry_align (base w) (data_offset w) m = Some (?off, m1)"
    "length m1 = length m" "\<forall>i < base w + ?o. m1 ! i = m ! i"
    using put_direntry_align_ok[OF a1 a2] by auto
  have uo: "unat ?off = ?o + pad4 ?o"
    using a2 by (simp add: unat_word_ariths unat_of_nat)
  obtain m2 where m2: "put_uint32 m1 (buf w) ?off = Some m2" "length m2 = length m1"
    "\<forall>i < buf w. m2 ! i = m1 ! i"
    using put_uint32_ok[of "buf w" m1 ?off] inl m1(2) by auto
  obtain m3 where m3: "memcpy m2 (base w + unat ?off) data (unat len) = Some m3"
    using memcpy_ok[of "unat len" data "base w + unat ?off" m2] src room p3 uo m2(2) m1(2)
    by auto
  note d = memcpy_SomeD[OF m3]
  have ul: "unat (?off + len) = ?o + pad4 ?o + unat len"
  proof -
    have "unat ?off + unat len < 2 ^ 32" using uo room p3 small by simp
    then show ?thesis using uo by (simp add: unat_word_ariths)
  qed
  have fr: "\<forall>i < buf w. m3 ! i = m ! i"
    using d(2) m2(3) m1(3) sep uo by simp
  have "put_direntry (w, m) data len = Some (w\<lparr>data_offset := ?off + len\<rparr>, m3)"
    using False m1(1) m2(1) m3 by (simp add: put_direntry_def)
  then show ?thesis using d(1) m2(2) m1(2) fr ul p3 by simp
qed

lemma put_stringentry_ok:
  assumes sep: "buf w + 12 \<le> base w + unat (data_offset w)"
      and room: "base w + unat (data_offset w) + 4 + length str \<le> length m"
      and small: "length m < 2 ^ 32"
  shows "\<exists>w' m'. put_stringentry (w, m) tag str nul = Some (w', m') \<and>
           base w' = base w \<and> buf w' = buf w + 12 \<and> length m' = length m \<and>
           (\<forall>i < buf w. m' ! i = m ! i) \<and>
           m' ! buf w = ucast (drop_bit 8 (tag AND 0xFF00)) \<and>
           m' ! (buf w + 1) = ucast (tag AND 0xFF) \<and>
           unat (data_offset w) \<le> unat (data_offset w') \<and>
           unat (data_offset w') \<le> unat (data_offset w) + 4 + length str"
proof -
  let ?sl = "(of_nat (strlen str) :: uint) + (if nul \<noteq> 0 then 1 else 0)"
  have ls: "length str + 1 < 2 ^ 32" using room small by simp
  have usl: "unat ?sl = length str + (if nul \<noteq> 0 then 1 else 0)"
    using ls by (simp add: strlen_def unat_word_ariths unat_of_nat)
  have inb: "buf w + 12 \<le> length m" using sep room by simp
  obtain m1 where m1: "put_uint16 m (buf w) tag = Some m1" "length m1 = length m"
    "\<forall>i < buf w. m1 ! i = m ! i" "m1 ! buf w = ucast (drop_bit 8 (tag AND 0xFF00))"
    "m1 ! (buf w + 1) = ucast (tag AND 0xFF)"
    using put_uint16_ok[of "buf w" m tag] inb by auto
  obtain m2 where m2: "put_uint16 m1 (buf w + 2) TIFF_TYPE_ASCII = Some m2" "length m2 = length m1"
    "\<forall>i < buf w + 2. m2 ! i = m1 ! i"
    using put_uint16_ok[of "buf w + 2" m1 TIFF_TYPE_ASCII] inb m1(2) by auto
  obtain m3 where m3: "put_uint32 m2 (buf w + 4) ?sl = Some m3" "length m3 = length m2"
    "\<forall>i < buf w + 4. m3 ! i = m2 ! i"
    using put_uint32_ok[of "buf w + 4" m2 ?sl] inb m1(2) m2(2) by auto
  let ?w1 = "w\<lparr>buf := buf w + 8\<rparr>"
  have lm3: "length m3 = length m" using m1(2) m2(2) m3(2) by simp
  obtain w4 m4 where m4: "put_direntry (?w1, m3) (c_str str) ?sl = Some (w4, m4)"
    "base w4 = base ?w1" "buf w4 = buf ?w1" "length m4 = length m3"
    "\<forall>i < buf ?w1. m4 ! i = m3 ! i"
    "unat (data_offset ?w1) \<le> unat (data_offset w4)"
    "unat (data_offset w4) \<le> unat (data_offset ?w1) + 3 + unat ?sl"
  proof -
    have q1: "buf ?w1 + 4 \<le> length m3" using inb lm3 by simp
    have q2: "buf ?w1 + 4 \<le> base ?w1 + unat (data_offset ?w1)" using sep by simp
    have q3: "unat ?sl \<le> length (c_str str)" using usl by (simp add: c_str_def)
    have q4: "base ?w1 + unat (data_offset ?w1) + 3 + unat ?sl \<le> length m3"
      using room usl lm3 by simp
    have q5: "length m3 < 2 ^ 32" using small lm3 by simp
    from put_direntry_ok[OF q1 q2 q3 q4 q5] that show ?thesis by blast
  qed
  have res: "put_stringentry (w, m) tag str nul = Some (w4\<lparr>buf := buf w4 + 4\<rparr>, m4)"
    using m1(1) m2(1) m3(1) m4(1) by (simp add: put_stringentry_def Let_def)
  have fr: "\<forall>i < buf w + 2. m4 ! i = m1 ! i"
    using m4(5) m3(3) m2(3) by simp
  have ub: "unat (data_offset w4) \<le> unat (data_offset w) + 4 + length str"
    using m4(7) usl by (simp split: if_splits)
  show ?thesis
    using res m4(2,3,4,6) ub lm3 fr m1(3,4,5) by simp
qed

lemma put_subjectarea_ok:
  assumes sep: "buf w + 12 \<le> base w + unat (data_offset w)"
      and room: "base w + unat (data_offset w) + 8 \<le> length m"
      and small: "length m < 2 ^ 32"
  shows "\<exists>w' m'. put_subjectarea (w, m) b = Some (w', m') \<and>
           base w' = base w \<and> buf w' = buf w + 12 \<and> length m' = length m \<and>
           (\<forall>i < buf w. m' ! i = m ! i) \<and>
           m' ! buf w = ucast (drop_bit 8 (EXIF_TAG_SUBJECT_AREA AND 0xFF00)) \<and>
           m' ! (buf w + 1) = ucast (EXIF_TAG_SUBJECT_AREA AND 0xFF) \<and>
           unat (data_offset w') = unat (data_offset w) + 8"
proof -
  let ?ool = "base w + unat (data_offset w)"
  have inb: "buf w + 12 \<le> length m" using sep room by simp
  obtain m1 where m1: "put_uint16 m (buf w) EXIF_TAG_SUBJECT_AREA = Some m1" "length m1 = length m"
    "\<forall>i < buf w. m1 ! i = m ! i"
    "m1 ! buf w = ucast (drop_bit 8 (EXIF_TAG_SUBJECT_AREA AND 0xFF00))"
    "m1 ! (buf w + 1) = ucast (EXIF_TAG_SUBJECT_AREA AND 0xFF)"
    using put_uint16_ok[of "buf w" m EXIF_TAG_SUBJECT_AREA] inb by auto
  obtain m2 where m2: "put_uint16 m1 (buf w + 2) TIFF_TYPE_USHORT = Some m2" "length m2 = length m"
    "\<forall>i < buf w + 2. m2 ! i = m1 ! i"
    using put_uint16_ok[of "buf w + 2" m1 TIFF_TYPE_USHORT] inb m1(2) by auto
  obtain m3 where m3: "put_uint32 m2 (buf w + 4) 4 = Some m3" "length m3 = length m"
    "\<forall>i < buf w + 2. m3 ! i = m2 ! i"
    using put_uint32_ok[of "buf w + 4" m2 4] inb m2(2) by auto
  obtain m4 where m4: "put_uint32 m3 (buf w + 8) (data_offset w) = Some m4" "length m4 = length m"
    "\<forall>i < buf w + 2. m4 ! i = m3 ! i"
    using put_uint32_ok[of "buf w + 8" m3 "data_offset w"] inb m3(2) by auto
  obtain m5 where m5: "put_uint16 m4 ?ool (word_of_int (coord_x b)) = Some m5" "length m5 = length m"
    "\<forall>i < buf w + 2. m5 ! i = m4 ! i"
    using put_uint16_ok[of ?ool m4 "word_of_int (coord_x b)"] room sep m4(2) by auto
  obtain m6 where m6: "put_uint16 m5 (?ool + 2) (word_of_int (coord_y b)) = Some m6" "length m6 = length m"
    "\<forall>i < buf w + 2. m6 ! i = m5 ! i"
    using put_uint16_ok[of "?ool + 2" m5 "word_of_int (coord_y b)"] room sep m5(2) by auto
  obtain m7 where m7: "put_uint16 m6 (?ool + 4) (word_of_int (coord_width b)) = Some m7" "length m7 = length m"
    "\<forall>i < buf w + 2. m7 ! i = m6 ! i"
    using put_uint16_ok[of "?ool + 4" m6 "word_of_int (coord_width b)"] room sep m6(2) by auto
  obtain m8 where m8: "put_uint16 m7 (?ool + 6) (word_of_int (coord_height b)) = Some m8" "length m8 = length m"
    "\<forall>i < buf w + 2. m8 ! i = m7 ! i"
    using put_uint16_ok[of "?ool + 6" m7 "word_of_int (coord_height b)"] room sep m7(2) by auto
  have res: "put_subjectarea (w, m) b =
      Some (w\<lparr>buf := buf w + 12, data_offset := data_offset w + 8\<rparr>, m8)"
    using m1(1) m2(1) m3(1) m4(1) m5(1) m6(1) m7(1) m8(1)
    by (simp add: put_subjectarea_def Let_def)
  have fr: "\<forall>i < buf w + 2. m8 ! i = m1 ! i"
    using m8(3) m7(3) m6(3) m5(3) m4(3) m3(3) m2(3) by simp
  have u8: "unat (data_offset w + 8) = unat (data_offset w) + 8"
  proof -
    have "unat (data_offset w) + 8 < 2 ^ 32" using room small by simp
    then show ?thesis by (simp add: unat_word_ariths)
  qed
  show ?thesis using res m8(2) fr m1(3,4,5) u8 by simp
qed

lemma cost_le_budget: "cost d \<le> budget d"
  by (simp add: cost_def budget_def split: option.split)

lemma cost_less_budget: "d \<noteq> None \<Longrightarrow> cost d < budget d"
  by (auto simp: cost_def budget_def split: option.split)

lemma opt_stringentry_ok:
  assumes sep: "buf w + 12 * present d \<le> base w + unat (data_offset w)"
      and room: "base w + unat (data_offset w) + cost d \<le> length m"
      and small: "length m < 2 ^ 32"
  shows "\<exists>w' m'. (case d of Some str \<Rightarrow> put_stringentry (w, m) tag str nul | None \<Rightarrow> Some (w, m))
             = Some (w', m') \<and>
           base w' = base w \<and> buf w' = buf w + 12 * present d \<and> length m' = length m \<and>
           (\<forall>i < buf w. m' ! i = m ! i) \<and>
           (d \<noteq> None \<longrightarrow> m' ! buf w = ucast (drop_bit 8 (tag AND 0xFF00)) \<and>
                          m' ! (buf w + 1) = ucast (tag AND 0xFF)) \<and>
           unat (data_offset w) \<le> unat (data_offset w') \<and>
           unat (data_offset w') \<le> unat (data_offset w) + cost d"
proof (cases d)
  case None
  then show ?thesis by (simp add: present_def cost_def)
next
  case (Some str)
  have s: "buf w + 12 \<le> base w + unat (data_offset w)" using sep Some by (simp add: present_def)
  have r: "base w + unat (data_offset w) + 4 + length str \<le> length m"
    using room Some by (simp add: cost_def)
  from put_stringentry_ok[OF s r small, of tag nul] Some
  show ?thesis by (simp add: present_def cost_def add.assoc)
qed

lemma opt_subjectarea_ok:
  assumes sep: "buf w + 12 * present d \<le> base w + unat (data_offset w)"
      and room: "base w + unat (data_offset w) + 8 * present d \<le> length m"
      and small: "length m < 2 ^ 32"
  shows "\<exists>w' m'. (case d of Some b \<Rightarrow> put_subjectarea (w, m) b | None \<Rightarrow> Some (w, m))
             = Some (w', m') \<and>
           base w' = base w \<and> buf w' = buf w + 12 * present d \<and> length m' = length m \<and>
           (\<forall>i < buf w. m' ! i = m ! i) \<and>
           (d \<noteq> None \<longrightarrow> m' ! buf w = ucast (drop_bit 8 (EXIF_TAG_SUBJECT_AREA AND 0xFF00)) \<and>
                          m' ! (buf w + 1) = ucast (EXIF_TAG_SUBJECT_AREA AND 0xFF)) \<and>
           unat (data_offset w') = unat (data_offset w) + 8 * present d"
proof (cases d)
  case None
  then show ?thesis by (simp add: present_def)
next
  case (Some b)
  have s: "buf w + 12 \<le> base w + unat (data_offset w)" using sep Some by (simp add: present_def)
  have r: "base w + unat (data_offset w) + 8 \<le> length m"
    using room Some by (simp add: present_def)
  from put_subjectarea_ok[OF s r small, of b] Some
  show ?thesis by (simp add: present_def)
qed

lemma ifd_tags_frame:
  assumes "\<forall>i < p + 2 + 12 * n. m' ! i = m ! i"
  shows "ifd_tags m' p n = ifd_tags m p n"
  using assms by (simp add: ifd_tags_def get_uint16_def)

lemma ifd_tags_snoc:
  "ifd_tags m p (Suc n) = ifd_tags m p n @ [get_uint16 m (p + 2 + 12 * n)]"
  by (simp add: ifd_tags_def)

lemma ifd_tags_opt:
  assumes old: "ifd_tags m p (length ts) = ts"
      and fr: "\<forall>i < p + 2 + 12 * length ts. m' ! i = m ! i"
      and new: "c \<Longrightarrow> get_uint16 m' (p + 2 + 12 * length ts) = t"
  shows "ifd_tags m' p (length (ts @ (if c then [t] else []))) = ts @ (if c then [t] else [])"
  using ifd_tags_frame[OF fr] old new by (simp add: ifd_tags_snoc)

subsection \<open>Reading a 16-bit value back\<close>

lemma unat_lo_byte: "unat (ucast ((v::uint) AND 0xFF) :: JOCTET) = unat v mod 256"
proof -
  have "(v AND 0xFF) = take_bit 8 v"
    by (simp add: take_bit_eq_mask mask_eq_exp_minus_1)
  then have "unat (ucast (v AND 0xFF) :: JOCTET) = unat (ucast (take_bit 8 v) :: JOCTET)"
    by (simp only:)
  also have "\<dots> = unat (take_bit 8 v) mod 2 ^ 8"
    by (simp add: unsigned_ucast_eq take_bit_eq_mod)
  also have "\<dots> = unat v mod 256"
    by (simp add: unsigned_take_bit_eq take_bit_eq_mod unat_mod)
  finally show ?thesis .
qed

lemma unat_hi_byte: "unat (ucast (drop_bit 8 ((v::uint) AND 0xFF00)) :: JOCTET) = (unat v div 256) mod 256"
proof -
  have "drop_bit 8 (v AND 0xFF00) = drop_bit 8 v AND 0xFF"
    by simp
  then have "unat (ucast (drop_bit 8 (v AND 0xFF00)) :: JOCTET) = unat (ucast (drop_bit 8 v AND 0xFF) :: JOCTET)"
    by (simp only:)
  also have "\<dots> = unat (drop_bit 8 v) mod 256" by (rule unat_lo_byte)
  also have "\<dots> = (unat v div 256) mod 256"
    by (simp add: unat_drop_bit_eq drop_bit_eq_div unat_div)
  finally show ?thesis .
qed

lemma get_uint16_bytes:
  assumes "m ! q = ucast (drop_bit 8 ((v::uint) AND 0xFF00))" "m ! (q + 1) = ucast (v AND 0xFF)"
      and "unat v < 65536"
  shows "get_uint16 m q = unat v"
proof -
  have "get_uint16 m q = 256 * ((unat v div 256) mod 256) + unat v mod 256"
    unfolding get_uint16_def assms(1) assms(2) unat_hi_byte unat_lo_byte ..
  also have "\<dots> = unat v" using assms(3) by simp
  finally show ?thesis .
qed

subsection \<open>The two directories\<close>

lemma subifd_block_ok:
  assumes inb: "buf w + 12 * (if c then 1 else 0) \<le> length m"
  shows "\<exists>w' m'. (if c then do {
               m1 \<leftarrow> memcpy m (buf w) exif_subifd_tag 8;
               m2 \<leftarrow> put_uint32 m1 (buf w + 8) v;
               Some (w\<lparr>buf := buf w + 12\<rparr>, m2)
             } else Some (w, m)) = Some (w', m') \<and>
           base w' = base w \<and> buf w' = buf w + 12 * (if c then 1 else 0) \<and>
           length m' = length m \<and> (\<forall>i < buf w. m' ! i = m ! i) \<and>
           (c \<longrightarrow> get_uint16 m' (buf w) = 0x8769) \<and>
           data_offset w' = data_offset w"
proof (cases c)
  case False
  then show ?thesis by simp
next
  case True
  obtain m1 where m1: "memcpy m (buf w) exif_subifd_tag 8 = Some m1"
    using memcpy_ok[of 8 exif_subifd_tag "buf w" m] inb True by (auto simp: exif_subifd_tag_def)
  note d1 = memcpy_SomeD[OF m1]
  obtain m2 where m2: "put_uint32 m1 (buf w + 8) v = Some m2" "length m2 = length m1"
    "\<forall>i < buf w + 8. m2 ! i = m1 ! i"
    using put_uint32_ok[of "buf w + 8" m1 v] inb True d1(1) by auto
  have b0: "m1 ! (buf w + 0) = exif_subifd_tag ! 0" by (rule d1(3)) simp
  have b1: "m1 ! (buf w + 1) = exif_subifd_tag ! 1" by (rule d1(3)) simp
  have g: "get_uint16 m2 (buf w) = 0x8769"
    using b0 b1 m2(3) by (simp add: get_uint16_def exif_subifd_tag_def)
  have fr: "\<forall>i < buf w. m2 ! i = m ! i" using m2(3) d1(2) by simp
  show ?thesis using True m1 m2(1,2) d1(1) g fr by simp
qed

lemma tzoffset_block_ok:
  assumes inb: "buf w + 12 * present d \<le> length m"
  shows "\<exists>w' m'. (case d of Some x \<Rightarrow> do {
               m1 \<leftarrow> memcpy m (buf w) exif_tzoffset_tag 12;
               m2 \<leftarrow> put_sint16 m1 (buf w + 8) v;
               Some (w\<lparr>buf := buf w + 12\<rparr>, m2)
             } | None \<Rightarrow> Some (w, m)) = Some (w', m') \<and>
           base w' = base w \<and> buf w' = buf w + 12 * present d \<and>
           length m' = length m \<and> (\<forall>i < buf w. m' ! i = m ! i) \<and>
           (d \<noteq> None \<longrightarrow> get_uint16 m' (buf w) = 0x882A) \<and>
           data_offset w' = data_offset w"
proof (cases d)
  case None
  then show ?thesis by (simp add: present_def)
next
  case (Some x)
  obtain m1 where m1: "memcpy m (buf w) exif_tzoffset_tag 12 = Some m1"
    using memcpy_ok[of 12 exif_tzoffset_tag "buf w" m] inb Some
    by (auto simp: exif_tzoffset_tag_def present_def)
  note d1 = memcpy_SomeD[OF m1]
  obtain m2 where m2: "put_sint16 m1 (buf w + 8) v = Some m2" "length m2 = length m1"
    "\<forall>i < buf w + 8. m2 ! i = m1 ! i"
    using put_sint16_ok[of "buf w + 8" m1 v] inb Some d1(1) by (auto simp: present_def)
  have b0: "m1 ! (buf w + 0) = exif_tzoffset_tag ! 0" by (rule d1(3)) simp
  have b1: "m1 ! (buf w + 1) = exif_tzoffset_tag ! 1" by (rule d1(3)) simp
  have g: "get_uint16 m2 (buf w) = 0x882A"
    using b0 b1 m2(3) by (simp add: get_uint16_def exif_tzoffset_tag_def)
  have fr: "\<forall>i < buf w. m2 ! i = m ! i" using m2(3) d1(2) by simp
  show ?thesis using Some m1 m2(1,2) d1(1) g fr by (simp add: present_def)
qed

lemma bind_SomeI: "f = Some a \<Longrightarrow> g a = Some b \<Longrightarrow> Option.bind f g = Some b"
  by simp

lemma writeifd0_ok:
  fixes info :: ctx_exif_info and m :: block
  defines "w \<equiv> writing info"
  defines "E \<equiv> present (description info) + 2 * present (datetime info) +
                 (if ifd1_tagcount info > 0 then 1 else 0)"
  assumes sep: "buf w + 6 + 12 * E \<le> base w + unat (data_offset w)"
      and room: "base w + unat (data_offset w) + cost (description info) + cost (datetime info)
                   \<le> length m"
      and small: "length m < 2 ^ 32"
  shows "\<exists>w' m'. jpgutl_exif_writeifd0 info m = Some (info\<lparr>writing := w'\<rparr>, m') \<and>
           base w' = base w \<and> buf w' = buf w + 6 + 12 * E \<and> length m' = length m \<and>
           (\<forall>i < buf w. m' ! i = m ! i) \<and>
           m' ! buf w = ucast (drop_bit 8 (ifd0_tagcount info AND 0xFF00)) \<and>
           m' ! (buf w + 1) = ucast (ifd0_tagcount info AND 0xFF) \<and>
           ifd_tags m' (buf w) E = ifd0_written info \<and>
           unat (data_offset w) \<le> unat (data_offset w') \<and>
           unat (data_offset w') \<le> unat (data_offset w) + cost (description info)
                                      + cost (datetime info)"
proof -
  let ?p = "buf w"
  let ?c3 = "ifd1_tagcount info > 0"
  have inb: "?p + 6 + 12 * E \<le> length m" using sep room by simp
  \<comment> \<open>the tag count\<close>
  obtain m0 where m0: "put_uint16 m ?p (ifd0_tagcount info) = Some m0" "length m0 = length m"
    "\<forall>i < ?p. m0 ! i = m ! i"
    "m0 ! ?p = ucast (drop_bit 8 (ifd0_tagcount info AND 0xFF00))"
    "m0 ! (?p + 1) = ucast (ifd0_tagcount info AND 0xFF)"
    using put_uint16_ok[of ?p m "ifd0_tagcount info"] inb by auto
  let ?w0 = "w\<lparr>buf := buf w + 2\<rparr>"
  \<comment> \<open>ImageDescription\<close>
  let ?ts1 = "(if description info \<noteq> None then [0x010E] else []) :: nat list"
  have l1: "length ?ts1 = present (description info)" by (simp add: present_def split: option.split)
  obtain w1 m1 where s1: "(case description info of
        Some d \<Rightarrow> put_stringentry (?w0, m0) TIFF_TAG_IMAGE_DESCRIPTION d 1
      | None \<Rightarrow> Some (?w0, m0)) = Some (w1, m1)"
    and f1: "base w1 = base w" "buf w1 = ?p + 2 + 12 * present (description info)"
      "length m1 = length m" "\<forall>i < ?p + 2. m1 ! i = m0 ! i"
      "description info \<noteq> None \<longrightarrow>
         m1 ! (?p + 2) = ucast (drop_bit 8 (TIFF_TAG_IMAGE_DESCRIPTION AND 0xFF00)) \<and>
         m1 ! (?p + 2 + 1) = ucast (TIFF_TAG_IMAGE_DESCRIPTION AND 0xFF)"
      "unat (data_offset w) \<le> unat (data_offset w1)"
      "unat (data_offset w1) \<le> unat (data_offset w) + cost (description info)"
  proof -
    have q1: "buf ?w0 + 12 * present (description info) \<le> base ?w0 + unat (data_offset ?w0)"
      using sep by (simp add: E_def)
    have q2: "base ?w0 + unat (data_offset ?w0) + cost (description info) \<le> length m0"
      using room m0(2) by simp
    have q3: "length m0 < 2 ^ 32" using small m0(2) by simp
    from opt_stringentry_ok[OF q1 q2 q3, of TIFF_TAG_IMAGE_DESCRIPTION 1] that m0(2)
    show ?thesis by auto
  qed
  have t1: "ifd_tags m1 ?p (length ?ts1) = ?ts1"
  proof -
    have a: "ifd_tags m0 ?p (length ([]::nat list)) = []" by (simp add: ifd_tags_def)
    have b: "\<forall>i < ?p + 2 + 12 * length ([]::nat list). m1 ! i = m0 ! i" using f1(4) by simp
    have c: "description info \<noteq> None \<Longrightarrow> get_uint16 m1 (?p + 2 + 12 * length ([]::nat list)) = 0x010E"
      using f1(5) get_uint16_bytes[of m1 "?p + 2" TIFF_TAG_IMAGE_DESCRIPTION]
      by (simp add: TIFF_TAG_IMAGE_DESCRIPTION_def)
    from ifd_tags_opt[OF a b c] show ?thesis by simp
  qed
  \<comment> \<open>DateTime\<close>
  let ?ts2 = "?ts1 @ (if datetime info \<noteq> None then [0x0132] else [])"
  have l2: "length ?ts2 = present (description info) + present (datetime info)"
    by (simp add: present_def split: option.split)
  obtain w2 m2 where s2: "(case datetime info of
        Some d \<Rightarrow> put_stringentry (w1, m1) TIFF_TAG_DATETIME d 1
      | None \<Rightarrow> Some (w1, m1)) = Some (w2, m2)"
    and f2: "base w2 = base w" "buf w2 = buf w1 + 12 * present (datetime info)"
      "length m2 = length m" "\<forall>i < buf w1. m2 ! i = m1 ! i"
      "datetime info \<noteq> None \<longrightarrow>
         m2 ! buf w1 = ucast (drop_bit 8 (TIFF_TAG_DATETIME AND 0xFF00)) \<and>
         m2 ! (buf w1 + 1) = ucast (TIFF_TAG_DATETIME AND 0xFF)"
      "unat (data_offset w1) \<le> unat (data_offset w2)"
      "unat (data_offset w2) \<le> unat (data_offset w1) + cost (datetime info)"
  proof -
    have q1: "buf w1 + 12 * present (datetime info) \<le> base w1 + unat (data_offset w1)"
      using sep f1(1,2,6) by (simp add: E_def)
    have q2: "base w1 + unat (data_offset w1) + cost (datetime info) \<le> length m1"
      using room f1(1,3,7) by simp
    have q3: "length m1 < 2 ^ 32" using small f1(3) by simp
    from opt_stringentry_ok[OF q1 q2 q3, of TIFF_TAG_DATETIME 1] that f1(1,3)
    show ?thesis by auto
  qed
  have t2: "ifd_tags m2 ?p (length ?ts2) = ?ts2"
  proof -
    have e: "buf w1 = ?p + 2 + 12 * length ?ts1" using f1(2) l1 by simp
    have b: "\<forall>i < ?p + 2 + 12 * length ?ts1. m2 ! i = m1 ! i" using f2(4) e by simp
    have c: "datetime info \<noteq> None \<Longrightarrow> get_uint16 m2 (?p + 2 + 12 * length ?ts1) = 0x0132"
      using f2(5) get_uint16_bytes[of m2 "buf w1" TIFF_TAG_DATETIME] e
      by (simp add: TIFF_TAG_DATETIME_def)
    from ifd_tags_opt[OF t1 b c] show ?thesis by simp
  qed
  \<comment> \<open>the pointer to the Exif sub-IFD\<close>
  let ?ts3 = "?ts2 @ (if ?c3 then [0x8769] else [])"
  have l3: "length ?ts3 = present (description info) + present (datetime info)
      + (if ?c3 then 1 else 0)"
    by (simp add: present_def split: option.split)
  obtain w3 m3 where s3: "(if ?c3 then do {
        m1' \<leftarrow> memcpy m2 (buf w2) exif_subifd_tag 8;
        m2' \<leftarrow> put_uint32 m1' (buf w2 + 8) (8 + 6 + 12 * ifd0_tagcount info);
        Some (w2\<lparr>buf := buf w2 + 12\<rparr>, m2')
      } else Some (w2, m2)) = Some (w3, m3)"
    and f3: "base w3 = base w" "buf w3 = buf w2 + 12 * (if ?c3 then 1 else 0)"
      "length m3 = length m" "\<forall>i < buf w2. m3 ! i = m2 ! i"
      "?c3 \<longrightarrow> get_uint16 m3 (buf w2) = 0x8769"
      "data_offset w3 = data_offset w2"
  proof -
    have q1: "buf w2 + 12 * (if ?c3 then 1 else 0) \<le> length m2"
      using inb f1(2) f2(2,3) by (simp add: E_def)
    from subifd_block_ok[OF q1, of "8 + 6 + 12 * ifd0_tagcount info"] that f2(1,3)
    show ?thesis by auto
  qed
  have t3: "ifd_tags m3 ?p (length ?ts3) = ?ts3"
  proof -
    have e: "buf w2 = ?p + 2 + 12 * length ?ts2" using f1(2) f2(2) l2 by simp
    have b: "\<forall>i < ?p + 2 + 12 * length ?ts2. m3 ! i = m2 ! i" using f3(4) e by simp
    have c: "?c3 \<Longrightarrow> get_uint16 m3 (?p + 2 + 12 * length ?ts2) = 0x8769"
      using f3(5) e by simp
    from ifd_tags_opt[OF t2 b c] show ?thesis by simp
  qed
  \<comment> \<open>TimeZoneOffset\<close>
  let ?ts4 = "?ts3 @ (if datetime info \<noteq> None then [0x882A] else [])"
  have l4: "length ?ts4 = E"
    by (simp add: present_def E_def split: option.split)
  obtain w4 m4 where s4: "(case datetime info of
        Some d \<Rightarrow> do {
          m1' \<leftarrow> memcpy m3 (buf w3) exif_tzoffset_tag 12;
          m2' \<leftarrow> put_sint16 m1' (buf w3 + 8) (tm_gmtoff (timestamp_tm info) sdiv 3600);
          Some (w3\<lparr>buf := buf w3 + 12\<rparr>, m2')
        }
      | None \<Rightarrow> Some (w3, m3)) = Some (w4, m4)"
    and f4: "base w4 = base w" "buf w4 = buf w3 + 12 * present (datetime info)"
      "length m4 = length m" "\<forall>i < buf w3. m4 ! i = m3 ! i"
      "datetime info \<noteq> None \<longrightarrow> get_uint16 m4 (buf w3) = 0x882A"
      "data_offset w4 = data_offset w3"
  proof -
    have q1: "buf w3 + 12 * present (datetime info) \<le> length m3"
      using inb f1(2) f2(2) f3(2,3) by (simp add: E_def)
    from tzoffset_block_ok[OF q1, of "tm_gmtoff (timestamp_tm info) sdiv 3600"] that f3(1,3)
    show ?thesis by auto
  qed
  have t4: "ifd_tags m4 ?p (length ?ts4) = ?ts4"
  proof -
    have e: "buf w3 = ?p + 2 + 12 * length ?ts3" using f1(2) f2(2) f3(2) l3 by simp
    have b: "\<forall>i < ?p + 2 + 12 * length ?ts3. m4 ! i = m3 ! i" using f4(4) e by simp
    have c: "datetime info \<noteq> None \<Longrightarrow> get_uint16 m4 (?p + 2 + 12 * length ?ts3) = 0x882A"
      using f4(5) e by simp
    from ifd_tags_opt[OF t3 b c] show ?thesis by simp
  qed
  have e4: "buf w4 = ?p + 2 + 12 * E"
    using f1(2) f2(2) f3(2) f4(2) by (simp add: E_def)
  \<comment> \<open>the next-IFD offset\<close>
  obtain m5 where m5: "put_uint32 m4 (buf w4) 0 = Some m5" "length m5 = length m"
    "\<forall>i < buf w4. m5 ! i = m4 ! i"
    using put_uint32_ok[of "buf w4" m4 0] inb e4 f4(3) by auto
  have t5: "ifd_tags m5 ?p E = ifd0_written info"
  proof -
    have "\<forall>i < ?p + 2 + 12 * E. m5 ! i = m4 ! i" using m5(3) e4 by simp
    from ifd_tags_frame[OF this] t4 l4 show ?thesis by (simp add: ifd0_written_def)
  qed
  have res: "jpgutl_exif_writeifd0 info m = Some (info\<lparr>writing := w4\<lparr>buf := buf w4 + 4\<rparr>\<rparr>, m5)"
    unfolding jpgutl_exif_writeifd0_def
    apply (rule bind_SomeI[OF m0(1)[unfolded w_def]])
    apply (rule bind_SomeI[OF s1[unfolded w_def]])
    apply (rule bind_SomeI[OF s2])
    apply (rule bind_SomeI[where a="(w3, m3)"])
     apply (simp only: fst_conv snd_conv s3)
    apply (rule bind_SomeI[where a="(w4, m4)"])
     apply (simp only: fst_conv snd_conv s4)
    apply (simp only: fst_conv snd_conv m5(1) bind.bind_lunit)
    done
  have fr: "\<forall>i < ?p + 2. m5 ! i = m0 ! i"
    using m5(3) f4(4) f3(4) f2(4) f1(4) e4 f1(2) f2(2) f3(2) by simp
  have lo: "unat (data_offset w) \<le> unat (data_offset w4)"
    using f1(6) f2(6) f3(6) f4(6) by simp
  have hi: "unat (data_offset w4) \<le> unat (data_offset w) + cost (description info)
      + cost (datetime info)"
    using f1(7) f2(7) f3(6) f4(6) by simp
  show ?thesis
    by (rule exI[of _ "w4\<lparr>buf := buf w4 + 4\<rparr>"], rule exI[of _ m5])
       (use res f4(1) e4 m5(2) fr m0(3,4,5) t5 lo hi in simp)
qed

lemma writeifd1_ok:
  fixes info :: ctx_exif_info and m :: block
  defines "w \<equiv> writing info"
  defines "E \<equiv> 1 + present (datetime info) + present (box info) + present (subtime info)"
  assumes c: "ifd1_tagcount info > 0"
      and sep: "buf w + 6 + 12 * E \<le> base w + unat (data_offset w)"
      and room: "base w + unat (data_offset w) + cost (datetime info) + 8 * present (box info)
                   + cost (subtime info) \<le> length m"
      and small: "length m < 2 ^ 32"
  shows "\<exists>w' m'. jpgutl_exif_writeifd1 info m = Some (info\<lparr>writing := w'\<rparr>, m') \<and>
           base w' = base w \<and> buf w' = buf w + 6 + 12 * E \<and> length m' = length m \<and>
           (\<forall>i < buf w. m' ! i = m ! i) \<and>
           m' ! buf w = ucast (drop_bit 8 (ifd1_tagcount info AND 0xFF00)) \<and>
           m' ! (buf w + 1) = ucast (ifd1_tagcount info AND 0xFF) \<and>
           ifd_tags m' (buf w) E = ifd1_written info \<and>
           unat (data_offset w) + 8 * present (box info) \<le> unat (data_offset w') \<and>
           unat (data_offset w') \<le> unat (data_offset w) + cost (datetime info)
                                      + 8 * present (box info) + cost (subtime info)"
proof -
  let ?p = "buf w"
  have inb: "?p + 6 + 12 * E \<le> length m" using sep room by simp
  \<comment> \<open>the tag count and ExifVersion\<close>
  obtain m0 where m0: "put_uint16 m ?p (ifd1_tagcount info) = Some m0" "length m0 = length m"
    "\<forall>i < ?p. m0 ! i = m ! i"
    "m0 ! ?p = ucast (drop_bit 8 (ifd1_tagcount info AND 0xFF00))"
    "m0 ! (?p + 1) = ucast (ifd1_tagcount info AND 0xFF)"
    using put_uint16_ok[of ?p m "ifd1_tagcount info"] inb by auto
  obtain mv where mv: "memcpy m0 (?p + 2) exif_version_tag 12 = Some mv"
    using memcpy_ok[of 12 exif_version_tag "?p + 2" m0] inb m0(2)
    by (auto simp: exif_version_tag_def E_def)
  note dv = memcpy_SomeD[OF mv]
  have lv: "length mv = length m" using dv(1) m0(2) by simp
  let ?w0 = "w\<lparr>buf := buf w + 14\<rparr>"
  let ?ts0 = "[0x9000] :: nat list"
  have t0: "ifd_tags mv ?p (length ?ts0) = ?ts0"
  proof -
    have b0: "mv ! (?p + 2 + 0) = exif_version_tag ! 0" by (rule dv(3)) simp
    have b1: "mv ! (?p + 2 + 1) = exif_version_tag ! 1" by (rule dv(3)) simp
    show ?thesis using b0 b1 by (simp add: ifd_tags_def get_uint16_def exif_version_tag_def)
  qed
  \<comment> \<open>DateTimeOriginal\<close>
  let ?ts1 = "?ts0 @ (if datetime info \<noteq> None then [0x9003] else [])"
  have l1: "length ?ts1 = 1 + present (datetime info)"
    by (simp add: present_def split: option.split)
  obtain w1 m1 where s1: "(case datetime info of
        Some d \<Rightarrow> put_stringentry (?w0, mv) EXIF_TAG_ORIGINAL_DATETIME d 1
      | None \<Rightarrow> Some (?w0, mv)) = Some (w1, m1)"
    and f1: "base w1 = base w" "buf w1 = ?p + 14 + 12 * present (datetime info)"
      "length m1 = length m" "\<forall>i < ?p + 14. m1 ! i = mv ! i"
      "datetime info \<noteq> None \<longrightarrow>
         m1 ! (?p + 14) = ucast (drop_bit 8 (EXIF_TAG_ORIGINAL_DATETIME AND 0xFF00)) \<and>
         m1 ! (?p + 14 + 1) = ucast (EXIF_TAG_ORIGINAL_DATETIME AND 0xFF)"
      "unat (data_offset w) \<le> unat (data_offset w1)"
      "unat (data_offset w1) \<le> unat (data_offset w) + cost (datetime info)"
  proof -
    have q1: "buf ?w0 + 12 * present (datetime info) \<le> base ?w0 + unat (data_offset ?w0)"
      using sep by (simp add: E_def)
    have q2: "base ?w0 + unat (data_offset ?w0) + cost (datetime info) \<le> length mv"
      using room lv by simp
    have q3: "length mv < 2 ^ 32" using small lv by simp
    from opt_stringentry_ok[OF q1 q2 q3, of EXIF_TAG_ORIGINAL_DATETIME 1] that lv
    show ?thesis by auto
  qed
  have t1: "ifd_tags m1 ?p (length ?ts1) = ?ts1"
  proof -
    have b: "\<forall>i < ?p + 2 + 12 * length ?ts0. m1 ! i = mv ! i" using f1(4) by simp
    have pos: "?p + 2 + 12 * length ?ts0 = ?p + 14" by simp
    have c: "datetime info \<noteq> None \<Longrightarrow> get_uint16 m1 (?p + 2 + 12 * length ?ts0) = 0x9003"
      unfolding pos
      using f1(5) get_uint16_bytes[of m1 "?p + 14" EXIF_TAG_ORIGINAL_DATETIME]
      by (simp add: EXIF_TAG_ORIGINAL_DATETIME_def)
    from ifd_tags_opt[OF t0 b c] show ?thesis by simp
  qed
  \<comment> \<open>SubjectArea\<close>
  let ?ts2 = "?ts1 @ (if box info \<noteq> None then [0x9214] else [])"
  have l2: "length ?ts2 = 1 + present (datetime info) + present (box info)"
    by (simp add: present_def split: option.split)
  obtain w2 m2 where s2: "(case box info of
        Some b \<Rightarrow> put_subjectarea (w1, m1) b
      | None \<Rightarrow> Some (w1, m1)) = Some (w2, m2)"
    and f2: "base w2 = base w" "buf w2 = buf w1 + 12 * present (box info)"
      "length m2 = length m" "\<forall>i < buf w1. m2 ! i = m1 ! i"
      "box info \<noteq> None \<longrightarrow>
         m2 ! buf w1 = ucast (drop_bit 8 (EXIF_TAG_SUBJECT_AREA AND 0xFF00)) \<and>
         m2 ! (buf w1 + 1) = ucast (EXIF_TAG_SUBJECT_AREA AND 0xFF)"
      "unat (data_offset w2) = unat (data_offset w1) + 8 * present (box info)"
  proof -
    have q1: "buf w1 + 12 * present (box info) \<le> base w1 + unat (data_offset w1)"
      using sep f1(1,2,6) by (simp add: E_def)
    have q2: "base w1 + unat (data_offset w1) + 8 * present (box info) \<le> length m1"
      using room f1(1,3,7) by simp
    have q3: "length m1 < 2 ^ 32" using small f1(3) by simp
    from opt_subjectarea_ok[OF q1 q2 q3] that f1(1,3)
    show ?thesis by auto
  qed
  have t2: "ifd_tags m2 ?p (length ?ts2) = ?ts2"
  proof -
    have e: "buf w1 = ?p + 2 + 12 * length ?ts1" using f1(2) l1 by simp
    have b: "\<forall>i < ?p + 2 + 12 * length ?ts1. m2 ! i = m1 ! i" using f2(4) e by simp
    have c: "box info \<noteq> None \<Longrightarrow> get_uint16 m2 (?p + 2 + 12 * length ?ts1) = 0x9214"
      using f2(5) get_uint16_bytes[of m2 "buf w1" EXIF_TAG_SUBJECT_AREA] e
      by (simp add: EXIF_TAG_SUBJECT_AREA_def)
    from ifd_tags_opt[OF t1 b c] show ?thesis by simp
  qed
  \<comment> \<open>SubsecTimeOriginal\<close>
  let ?ts3 = "?ts2 @ (if subtime info \<noteq> None then [0x9291] else [])"
  have l3: "length ?ts3 = E"
    by (simp add: present_def E_def split: option.split)
  obtain w3 m3 where s3: "(case subtime info of
        Some d \<Rightarrow> put_stringentry (w2, m2) EXIF_TAG_ORIGINAL_DATETIME_SS d 0
      | None \<Rightarrow> Some (w2, m2)) = Some (w3, m3)"
    and f3: "base w3 = base w" "buf w3 = buf w2 + 12 * present (subtime info)"
      "length m3 = length m" "\<forall>i < buf w2. m3 ! i = m2 ! i"
      "subtime info \<noteq> None \<longrightarrow>
         m3 ! buf w2 = ucast (drop_bit 8 (EXIF_TAG_ORIGINAL_DATETIME_SS AND 0xFF00)) \<and>
         m3 ! (buf w2 + 1) = ucast (EXIF_TAG_ORIGINAL_DATETIME_SS AND 0xFF)"
      "unat (data_offset w2) \<le> unat (data_offset w3)"
      "unat (data_offset w3) \<le> unat (data_offset w2) + cost (subtime info)"
  proof -
    have q1: "buf w2 + 12 * present (subtime info) \<le> base w2 + unat (data_offset w2)"
      using sep f1(1,2,6) f2(1,2,6) by (simp add: E_def)
    have q2: "base w2 + unat (data_offset w2) + cost (subtime info) \<le> length m2"
      using room f1(1,3,7) f2(1,3,6) by simp
    have q3: "length m2 < 2 ^ 32" using small f2(3) by simp
    from opt_stringentry_ok[OF q1 q2 q3, of EXIF_TAG_ORIGINAL_DATETIME_SS 0] that f2(1,3)
    show ?thesis by auto
  qed
  have t3: "ifd_tags m3 ?p (length ?ts3) = ?ts3"
  proof -
    have e: "buf w2 = ?p + 2 + 12 * length ?ts2" using f1(2) f2(2) l2 by simp
    have b: "\<forall>i < ?p + 2 + 12 * length ?ts2. m3 ! i = m2 ! i" using f3(4) e by simp
    have c: "subtime info \<noteq> None \<Longrightarrow> get_uint16 m3 (?p + 2 + 12 * length ?ts2) = 0x9291"
      using f3(5) get_uint16_bytes[of m3 "buf w2" EXIF_TAG_ORIGINAL_DATETIME_SS] e
      by (simp add: EXIF_TAG_ORIGINAL_DATETIME_SS_def)
    from ifd_tags_opt[OF t2 b c] show ?thesis by simp
  qed
  have e3: "buf w3 = ?p + 2 + 12 * E"
    using f1(2) f2(2) f3(2) by (simp add: E_def)
  \<comment> \<open>the next-IFD offset\<close>
  obtain m4 where m4: "put_uint32 m3 (buf w3) 0 = Some m4" "length m4 = length m"
    "\<forall>i < buf w3. m4 ! i = m3 ! i"
    using put_uint32_ok[of "buf w3" m3 0] inb e3 f3(3) by auto
  have t4: "ifd_tags m4 ?p E = ifd1_written info"
  proof -
    have "\<forall>i < ?p + 2 + 12 * E. m4 ! i = m3 ! i" using m4(3) e3 by simp
    from ifd_tags_frame[OF this] t3 l3 show ?thesis by (simp add: ifd1_written_def)
  qed
  have res: "jpgutl_exif_writeifd1 info m = Some (info\<lparr>writing := w3\<lparr>buf := buf w3 + 4\<rparr>\<rparr>, m4)"
    unfolding jpgutl_exif_writeifd1_def
    apply (simp only: c if_True)
    apply (rule bind_SomeI[OF m0(1)[unfolded w_def]])
    apply (rule bind_SomeI[OF mv[unfolded w_def]])
    apply (rule bind_SomeI[OF s1[unfolded w_def]])
    apply (rule bind_SomeI[OF s2])
    apply (rule bind_SomeI[OF s3])
    apply (simp only: fst_conv snd_conv m4(1) bind.bind_lunit)
    done
  have fr: "\<forall>i < ?p + 2. m4 ! i = m0 ! i"
    using m4(3) f3(4) f2(4) f1(4) dv(2) e3 f1(2) f2(2) by simp
  have lo: "unat (data_offset w) + 8 * present (box info) \<le> unat (data_offset w3)"
    using f1(6) f2(6) f3(6) by simp
  have hi: "unat (data_offset w3) \<le> unat (data_offset w) + cost (datetime info)
      + 8 * present (box info) + cost (subtime info)"
    using f1(7) f2(6) f3(7) by simp
  show ?thesis
    by (rule exI[of _ "w3\<lparr>buf := buf w3 + 4\<rparr>"], rule exI[of _ m4])
       (use res f3(1) e3 m4(2) fr m0(3,4,5) t4 lo hi in simp)
qed

subsection \<open>The inventory pass in natural numbers\<close>

lemma tags_fields:
  "description (jpgutl_exif_tags i) = description i"
  "datetime (jpgutl_exif_tags i) = datetime i"
  "subtime (jpgutl_exif_tags i) = subtime i"
  "box (jpgutl_exif_tags i) = box i"
  "timestamp_tm (jpgutl_exif_tags i) = timestamp_tm i"
  by (simp_all add: jpgutl_exif_tags_def Let_def split: option.split)

lemma present_le: "present d \<le> 1"
  by (simp add: present_def split: option.split)

lemma ifd_count_le: "ifd0_count i \<le> 4" "ifd1_count i \<le> 4"
  using present_le[of "description i"] present_le[of "datetime i"]
    present_le[of "subtime i"] present_le[of "box i"]
  by (simp_all add: ifd0_count_def ifd1_count_def ifd1_fields_def)

lemma ifds_bytes_le: "ifds_bytes i \<le> 108"
  using ifd_count_le[of i] by (simp add: ifds_bytes_def)

lemma ifds_bytes_eq:
  "ifds_bytes i = (if ifd0_count i = 0 then 0
                   else 12 * ifd0_count i + 6 + (if ifd1_count i > 0 then 12 * ifd1_count i + 6 else 0))"
  by (simp add: ifds_bytes_def ifd0_count_def ifd1_count_def)

lemma tags_count0:
  assumes "ifd0_tagcount i = 0" "ifd1_tagcount i = 0" "datasize i = 0"
  shows "ifd0_tagcount (jpgutl_exif_tags i) = of_nat (ifd0_count i)"
  using assms
  by (cases "description i"; cases "datetime i"; cases "subtime i"; cases "box i")
     (simp_all add: jpgutl_exif_tags_def Let_def ifd0_count_def ifd1_fields_def present_def)

lemma tags_count1:
  assumes "ifd0_tagcount i = 0" "ifd1_tagcount i = 0" "datasize i = 0"
  shows "ifd1_tagcount (jpgutl_exif_tags i) = of_nat (ifd1_count i)"
  using assms
  by (cases "description i"; cases "datetime i"; cases "subtime i"; cases "box i")
     (simp_all add: jpgutl_exif_tags_def Let_def ifd1_count_def ifd1_fields_def present_def)

lemma tags_datasize:
  assumes "ifd0_tagcount i = 0" "ifd1_tagcount i = 0" "datasize i = 0"
  shows "datasize (jpgutl_exif_tags i) = of_nat (data_budget i)"
  using assms
  by (cases "description i"; cases "datetime i"; cases "subtime i"; cases "box i")
     (simp_all add: jpgutl_exif_tags_def Let_def present_def data_budget_def budget_def strlen_def)

lemma tags_ifds_size:
  assumes "ifd0_tagcount i = 0" "ifd1_tagcount i = 0" "datasize i = 0"
  shows "ifds_size (jpgutl_exif_tags i) = of_nat (ifds_bytes i)"
  using assms
  by (cases "description i"; cases "datetime i"; cases "subtime i"; cases "box i")
     (simp_all add: jpgutl_exif_tags_def Let_def ifd0_count_def ifd1_count_def ifd1_fields_def
        present_def ifds_bytes_def)

lemma unat_of_nat32: "n < 2 ^ 32 \<Longrightarrow> unat (of_nat n :: uint) = n"
  by (simp add: unat_of_nat)

lemma data_cost_le: "data_cost i \<le> data_budget i"
  using cost_le_budget[of "description i"] cost_le_budget[of "datetime i"]
    cost_le_budget[of "subtime i"]
  by (simp add: data_cost_def data_budget_def)

subsection \<open>The whole marker\<close>

lemma marker_ok:
  assumes z: "ifd0_tagcount i = 0" "ifd1_tagcount i = 0" "datasize i = 0"
      and fit: "14 + ifds_bytes i + data_budget i < 2 ^ 32"
      and some: "ifd0_count i > 0"
  shows "\<exists>marker len. jpgutl_exif_marker fresh (jpgutl_exif_tags i) = Some (marker, len) \<and>
     length marker = 14 + ifds_bytes i + data_budget i \<and>
     14 + ifds_bytes i + 8 * present (box i) \<le> unat len \<and>
     unat len \<le> 14 + ifds_bytes i + data_cost i \<and>
     get_uint16 marker 14 = ifd0_count i \<and>
     ifd_tags marker 14 (ifd0_count i) = ifd0_written (jpgutl_exif_tags i) \<and>
     (ifd1_count i > 0 \<longrightarrow>
        get_uint16 marker (20 + 12 * ifd0_count i) = ifd1_count i \<and>
        ifd_tags marker (20 + 12 * ifd0_count i) (ifd1_count i) = ifd1_written i)"
proof -
  let ?I = "jpgutl_exif_tags i"
  let ?K = "ifds_bytes i" and ?D = "data_budget i"
  let ?n0 = "ifd0_count i" and ?n1 = "ifd1_count i"
  note tc = tags_count0[OF z] tags_count1[OF z] tags_datasize[OF z] tags_ifds_size[OF z]
  have K: "?K = 12 * ?n0 + 6 + (if ?n1 > 0 then 12 * ?n1 + 6 else 0)"
    using some ifds_bytes_eq[of i] by simp
  have uK: "unat (ifds_size ?I) = ?K" using fit by (simp add: tc(4) unat_of_nat32)
  have nz: "ifds_size ?I \<noteq> 0"
  proof
    assume "ifds_size ?I = 0"
    then have "unat (ifds_size ?I) = 0" by simp
    with uK K show False by simp
  qed
  have bs: "14 + ifds_size ?I + datasize ?I = of_nat (14 + ?K + ?D)" by (simp add: tc)
  have ubs: "unat (14 + ifds_size ?I + datasize ?I) = 14 + ?K + ?D"
    unfolding bs using fit by (rule unat_of_nat32)
  have d0: "8 + ifds_size ?I = of_nat (8 + ?K)" by (simp add: tc)
  have udo: "unat (8 + ifds_size ?I) = 8 + ?K"
    unfolding d0 using fit by (intro unat_of_nat32) simp
  have un0: "unat (ifd0_tagcount ?I) = ?n0"
    unfolding tc(1) using ifd_count_le(1)[of i] by (intro unat_of_nat32) simp
  have un1: "unat (ifd1_tagcount ?I) = ?n1"
    unfolding tc(2) using ifd_count_le(2)[of i] by (intro unat_of_nat32) simp
  have c1: "ifd1_tagcount ?I > 0 \<longleftrightarrow> ?n1 > 0"
    using un1 by (simp add: word_greater_zero_iff unat_gt_0[symmetric])
  have e0: "present (description i) + 2 * present (datetime i)
             + (if 0 < ifd1_tagcount ?I then 1 else 0) = ?n0"
    unfolding c1 by (simp add: ifd0_count_def ifd1_count_def)
  have e1: "?n1 > 0 \<Longrightarrow> 1 + present (datetime i) + present (box i) + present (subtime i) = ?n1"
    by (simp add: ifd1_count_def ifd1_fields_def split: if_splits)
  have small: "14 + ?K + ?D < (2::nat) ^ 32" by (rule fit)
  \<comment> \<open>the block and the fixed header\<close>
  let ?N = "14 + ?K + ?D"
  obtain mk where mk: "memcpy (mymalloc fresh ?N) 0 exif_marker_start 14 = Some mk"
    using memcpy_ok[of 14 exif_marker_start 0 "mymalloc fresh ?N"]
    by (auto simp: exif_marker_start_def mymalloc_def)
  have lmk: "length mk = ?N" using memcpy_SomeD(1)[OF mk] by (simp add: mymalloc_def)
  \<comment> \<open>IFD0\<close>
  let ?w0 = "\<lparr>base = 6, buf = 14, data_offset = 8 + ifds_size ?I\<rparr>"
  let ?i1 = "?I\<lparr>writing := ?w0\<rparr>"
  have p1: "buf (writing ?i1) + 6 + 12 * (present (description ?i1) + 2 * present (datetime ?i1)
              + (if 0 < ifd1_tagcount ?i1 then 1 else 0))
            \<le> base (writing ?i1) + unat (data_offset (writing ?i1))"
    using K by (simp add: tags_fields e0 udo)
  have p2: "base (writing ?i1) + unat (data_offset (writing ?i1)) + cost (description ?i1)
              + cost (datetime ?i1) \<le> length mk"
    using cost_le_budget[of "description i"] cost_le_budget[of "datetime i"]
    by (simp add: tags_fields udo lmk data_budget_def)
  have p3: "length mk < 2 ^ 32" using small lmk by simp
  from writeifd0_ok[OF p1 p2 p3]
  obtain w1 m1 where r1: "jpgutl_exif_writeifd0 ?i1 mk = Some (?i1\<lparr>writing := w1\<rparr>, m1)"
    and g1: "base w1 = base (writing ?i1)"
      "buf w1 = buf (writing ?i1) + 6 + 12 * (present (description ?i1) + 2 * present (datetime ?i1)
              + (if 0 < ifd1_tagcount ?i1 then 1 else 0))"
      "length m1 = length mk"
      "m1 ! buf (writing ?i1) = ucast (drop_bit 8 (ifd0_tagcount ?i1 AND 0xFF00))"
      "m1 ! (buf (writing ?i1) + 1) = ucast (ifd0_tagcount ?i1 AND 0xFF)"
      "ifd_tags m1 (buf (writing ?i1)) (present (description ?i1) + 2 * present (datetime ?i1)
              + (if 0 < ifd1_tagcount ?i1 then 1 else 0)) = ifd0_written ?i1"
      "unat (data_offset (writing ?i1)) \<le> unat (data_offset w1)"
      "unat (data_offset w1) \<le> unat (data_offset (writing ?i1)) + cost (description ?i1)
              + cost (datetime ?i1)"
    by blast
  have h1: "base w1 = 6" "buf w1 = 20 + 12 * ?n0" "length m1 = ?N"
    "get_uint16 m1 14 = ?n0" "ifd_tags m1 14 ?n0 = ifd0_written ?I"
    "8 + ?K \<le> unat (data_offset w1)"
    "unat (data_offset w1) \<le> 8 + ?K + cost (description i) + cost (datetime i)"
  proof -
    show "base w1 = 6" using g1(1) by simp
    show "buf w1 = 20 + 12 * ?n0" using g1(2) by (simp add: tags_fields e0)
    show "length m1 = ?N" using g1(3) lmk by simp
    have "get_uint16 m1 14 = unat (ifd0_tagcount ?I)"
      using g1(4,5) un0 ifd_count_le(1)[of i] by (intro get_uint16_bytes) simp_all
    then show "get_uint16 m1 14 = ?n0" using un0 by simp
    show "ifd_tags m1 14 ?n0 = ifd0_written ?I"
      using g1(6) by (simp add: tags_fields e0 ifd0_written_def)
    show "8 + ?K \<le> unat (data_offset w1)" using g1(7) by (simp add: udo)
    show "unat (data_offset w1) \<le> 8 + ?K + cost (description i) + cost (datetime i)"
      using g1(8) by (simp add: udo tags_fields)
  qed
  let ?i2 = "?i1\<lparr>writing := w1\<rparr>"
  show ?thesis
  proof (cases "?n1 > 0")
    case False
    then have nc: "\<not> ifd1_tagcount ?i2 > 0" using c1 by simp
    have r2: "jpgutl_exif_writeifd1 ?i2 m1 = Some (?i2, m1)"
      using nc by (simp add: jpgutl_exif_writeifd1_def)
    have nf: "present (datetime i) = 0" "present (subtime i) = 0" "present (box i) = 0"
      using False by (simp_all add: ifd1_count_def ifd1_fields_def split: if_splits)
    have cd: "cost (datetime i) = 0"
      using nf(1) by (simp add: present_def cost_def split: option.splits)
    have fin: "unat (data_offset w1 + 6) = unat (data_offset w1) + 6"
    proof -
      have "unat (data_offset w1) + 6 < 2 ^ 32"
        using h1(7) small cost_le_budget[of "description i"] cost_le_budget[of "datetime i"]
        by (simp add: data_budget_def)
      then show ?thesis by (simp add: unat_word_ariths)
    qed
    have res: "jpgutl_exif_marker fresh ?I = Some (m1, data_offset w1 + 6)"
      using nz mk r1 r2 by (simp add: jpgutl_exif_marker_def Let_def ubs)
    have hi: "unat (data_offset w1 + 6) \<le> 14 + ?K + data_cost i"
      using fin h1(7) cd by (simp add: data_cost_def)
    have lo: "14 + ?K + 8 * present (box i) \<le> unat (data_offset w1 + 6)"
      using fin h1(6) nf(3) by simp
    show ?thesis
      by (rule exI[of _ m1], rule exI[of _ "data_offset w1 + 6"])
         (use res h1(3,4,5) lo hi False in simp)
  next
    case True
    then have c: "ifd1_tagcount ?i2 > 0" using c1 by simp
    have q1: "buf (writing ?i2) + 6 + 12 * (1 + present (datetime ?i2) + present (box ?i2)
                + present (subtime ?i2))
              \<le> base (writing ?i2) + unat (data_offset (writing ?i2))"
      using K True h1(1,2,6) e1[OF True] by (simp add: tags_fields)
    have q2: "base (writing ?i2) + unat (data_offset (writing ?i2)) + cost (datetime ?i2)
                + 8 * present (box ?i2) + cost (subtime ?i2) \<le> length m1"
      using h1(1,3,7) data_cost_le[of i] by (simp add: tags_fields data_cost_def)
    have q3: "length m1 < 2 ^ 32" using small h1(3) by simp
    from writeifd1_ok[OF c q1 q2 q3]
    obtain w2 m2 where r2: "jpgutl_exif_writeifd1 ?i2 m1 = Some (?i2\<lparr>writing := w2\<rparr>, m2)"
      and g2: "length m2 = length m1"
        "\<forall>i < buf (writing ?i2). m2 ! i = m1 ! i"
        "m2 ! buf (writing ?i2) = ucast (drop_bit 8 (ifd1_tagcount ?i2 AND 0xFF00))"
        "m2 ! (buf (writing ?i2) + 1) = ucast (ifd1_tagcount ?i2 AND 0xFF)"
        "ifd_tags m2 (buf (writing ?i2)) (1 + present (datetime ?i2) + present (box ?i2)
                + present (subtime ?i2)) = ifd1_written ?i2"
        "unat (data_offset (writing ?i2)) + 8 * present (box ?i2) \<le> unat (data_offset w2)"
        "unat (data_offset w2) \<le> unat (data_offset (writing ?i2)) + cost (datetime ?i2)
                + 8 * present (box ?i2) + cost (subtime ?i2)"
      by blast
    have lm2: "length m2 = ?N" using g2(1) h1(3) by simp
    have fr: "\<forall>j < 20 + 12 * ?n0. m2 ! j = m1 ! j" using g2(2) h1(2) by simp
    have k0: "get_uint16 m2 14 = ?n0"
      using fr h1(4) by (simp add: get_uint16_def)
    have t0: "ifd_tags m2 14 ?n0 = ifd0_written ?I"
    proof -
      have "\<forall>j < 14 + 2 + 12 * ?n0. m2 ! j = m1 ! j" using fr by simp
      from ifd_tags_frame[OF this] h1(5) show ?thesis by simp
    qed
    have k1: "get_uint16 m2 (20 + 12 * ?n0) = ?n1"
    proof -
      have "get_uint16 m2 (20 + 12 * ?n0) = unat (ifd1_tagcount ?I)"
        using g2(3,4) h1(2) un1 ifd_count_le(2)[of i] by (intro get_uint16_bytes) simp_all
      then show ?thesis using un1 by simp
    qed
    have t1: "ifd_tags m2 (20 + 12 * ?n0) ?n1 = ifd1_written i"
      using g2(5) h1(2) e1[OF True] by (simp add: tags_fields ifd1_written_def)
    have lo2: "8 + ?K + 8 * present (box i) \<le> unat (data_offset w2)"
      using g2(6) h1(6) by (simp add: tags_fields)
    have hi2: "unat (data_offset w2) \<le> 8 + ?K + data_cost i"
      using g2(7) h1(7) by (simp add: tags_fields data_cost_def)
    have fin: "unat (data_offset w2 + 6) = unat (data_offset w2) + 6"
    proof -
      have "unat (data_offset w2) + 6 < 2 ^ 32"
        using hi2 small data_cost_le[of i] by simp
      then show ?thesis by (simp add: unat_word_ariths)
    qed
    have res: "jpgutl_exif_marker fresh ?I = Some (m2, data_offset w2 + 6)"
      using nz mk r1 r2 by (simp add: jpgutl_exif_marker_def Let_def ubs)
    show ?thesis
      by (rule exI[of _ m2], rule exI[of _ "data_offset w2 + 6"])
         (use res lm2 k0 t0 k1 t1 lo2 hi2 fin True in simp)
  qed
qed

section \<open>Sizes of the two passes\<close>

lemma ifd0_count_pos:
  "ifd0_count i > 0 \<longleftrightarrow>
     \<not> (description i = None \<and> datetime i = None \<and> subtime i = None \<and> box i = None)"
  by (simp add: ifd0_count_def ifd1_fields_def present_def split: option.split)

lemma data_cost_eq:
  assumes "description i = None" "datetime i = None" "subtime i = None"
  shows "data_cost i = 8 * present (box i)" "data_budget i = 8 * present (box i)"
  using assms by (simp_all add: data_cost_def data_budget_def cost_def budget_def)

lemma data_cost_less:
  assumes "\<not> (description i = None \<and> datetime i = None \<and> subtime i = None)"
  shows "data_cost i < data_budget i"
proof -
  note le = cost_le_budget[of "description i"] cost_le_budget[of "datetime i"]
    cost_le_budget[of "subtime i"]
  from assms consider "description i \<noteq> None" | "datetime i \<noteq> None" | "subtime i \<noteq> None"
    by auto
  then show ?thesis
  proof cases
    case 1 from cost_less_budget[OF 1] le show ?thesis
      by (simp add: data_cost_def data_budget_def)
  next
    case 2 from cost_less_budget[OF 2] le show ?thesis
      by (simp add: data_cost_def data_budget_def)
  next
    case 3 from cost_less_budget[OF 3] le show ?thesis
      by (simp add: data_cost_def data_budget_def)
  qed
qed

lemma marker_none:
  assumes "zeroed i" "ifd0_count i = 0"
  shows "jpgutl_exif_marker fresh (jpgutl_exif_tags i) = Some ([], 0)"
proof -
  have "ifds_bytes i = 0" using assms(2) by (simp add: ifds_bytes_eq)
  then have "ifds_size (jpgutl_exif_tags i) = 0"
    using tags_ifds_size[of i] assms(1) by (simp add: zeroed_def)
  then show ?thesis by (simp add: jpgutl_exif_marker_def)
qed

lemma sorted_ifd0_written: "sorted_wrt (<) (ifd0_written i)"
  by (simp add: ifd0_written_def)

lemma sorted_ifd1_written: "sorted_wrt (<) (ifd1_written i)"
  by (simp add: ifd1_written_def)

lemma date_fields:
  "ifd0_tagcount (jpgutl_exif_date e i) = ifd0_tagcount i"
  "ifd1_tagcount (jpgutl_exif_date e i) = ifd1_tagcount i"
  "datasize (jpgutl_exif_date e i) = datasize i"
  "box (jpgutl_exif_date e i) = box i"
  "subtime (jpgutl_exif_date e i) = None"
  "description (jpgutl_exif_date e i) =
     (if picture_exif (cam i) \<noteq> [] then Some (mystrftime e (cam i) (picture_exif (cam i)))
      else None)"
  by (simp_all add: jpgutl_exif_date_def Let_def)

lemma date_datetime:
  "\<exists>s. datetime (jpgutl_exif_date e i) = Some s \<and> length s \<le> 21"
  by (simp add: jpgutl_exif_date_def Let_def snprintf_def)

section \<open>Counting warnings\<close>

lemma warning_seen_foldl:
  "warning_seen (foldl jpgutl_emit_message j ms) =
   warning_seen j
   + int (length (filter (\<lambda>msg. msg_code msg \<noteq> JWRN_EXTRANEOUS_DATA \<and> msg_level msg < 0) ms))"
  by (induction ms arbitrary: j) (simp_all add: jpgutl_emit_message_def)

lemma codec_Some:
  assumes "\<not> error_exit c"
  shows "\<exists>j'. codec c j = Some j' \<and> warning_seen j' = warning_seen j + int (counted c)"
  using assms by (simp add: codec_def counted_def warning_seen_foldl)

lemma codec_None: "error_exit c \<Longrightarrow> codec c j = None"
  by (simp add: codec_def)

lemma read_lines_clean:
  assumes "list_all (\<lambda>k. \<not> error_exit (on_read_scanlines d k)) [k..<k + n]"
  shows "\<exists>s'. read_lines d k n s = (False, s') \<and>
           warning_seen (jerr s') =
             warning_seen (jerr s)
             + int (sum_list (map (\<lambda>k. counted (on_read_scanlines d k)) [k..<k + n]))"
  using assms
proof (induction n arbitrary: k s)
  case 0
  then show ?case by simp
next
  case (Suc n)
  have up: "[k..<k + Suc n] = k # [Suc k..<Suc k + n]" by (simp add: upt_conv_Cons)
  from Suc.prems have ok: "\<not> error_exit (on_read_scanlines d k)"
    and rest: "list_all (\<lambda>k. \<not> error_exit (on_read_scanlines d k)) [Suc k..<Suc k + n]"
    unfolding up by simp_all
  from codec_Some[OF ok, of "jerr s"] obtain j where
    j: "codec (on_read_scanlines d k) (jerr s) = Some j"
       "warning_seen j = warning_seen (jerr s) + int (counted (on_read_scanlines d k))"
    by blast
  let ?s1 = "s\<lparr>jerr := j,
               img := demux_line 0 (unat (output_width d * 3)) (scanline d k)
                        (img_y s) (img_cb s) (img_cr s) (img s),
               img_y := img_y s + unat (output_width d),
               img_cb := (if offset_y s AND 1 \<noteq> 0
                          then img_cb s + unat (output_width d div 2) else img_cb s),
               img_cr := (if offset_y s AND 1 \<noteq> 0
                          then img_cr s + unat (output_width d div 2) else img_cr s),
               offset_y := offset_y s + 1\<rparr>"
  from Suc.IH[OF rest, of ?s1] obtain s' where
    s': "read_lines d (Suc k) n ?s1 = (False, s')"
        "warning_seen (jerr s') = warning_seen (jerr ?s1)
           + int (sum_list (map (\<lambda>k. counted (on_read_scanlines d k)) [Suc k..<Suc k + n]))"
    by blast
  have "read_lines d k (Suc n) s = read_lines d (Suc k) n ?s1"
    using j(1) by simp
  with s' j(2) show ?case unfolding up by simp
qed

lemma read_lines_abort:
  assumes "\<not> list_all (\<lambda>k. \<not> error_exit (on_read_scanlines d k)) [k..<k + n]"
  shows "fst (read_lines d k n s)"
  using assms
proof (induction n arbitrary: k s)
  case 0
  then show ?case by simp
next
  case (Suc n)
  have up: "[k..<k + Suc n] = k # [Suc k..<Suc k + n]" by (simp add: upt_conv_Cons)
  show ?case
  proof (cases "error_exit (on_read_scanlines d k)")
    case True
    then show ?thesis by (simp add: codec_None)
  next
    case False
    with Suc.prems have rest:
      "\<not> list_all (\<lambda>k. \<not> error_exit (on_read_scanlines d k)) [Suc k..<Suc k + n]"
      unfolding up by simp
    from codec_Some[OF False, of "jerr s"] obtain j where
      j: "codec (on_read_scanlines d k) (jerr s) = Some j" by blast
    show ?thesis using j Suc.IH[OF rest] by simp
  qed
qed

section \<open>The example inputs evaluated\<close>

lemmas example_defs =
  info_datetime_only_def info_box_only_def info_description_box_def info_all_def exif_info_init_def env_2024_def
  env_10000_def cam_plain_def cam_described_def box_10_20_def

lemmas size_defs =
  zeroed_def ifds_bytes_def ifd0_count_def ifd1_count_def ifd1_fields_def data_budget_def
  data_cost_def present_def budget_def cost_def

lemma exif_2024:
  "jpgutl_exif env_2024 cam_plain None None =
   Some
     ([69, 120, 105, 102, 0, 0, 77, 77, 0, 42, 0, 0, 0, 8, 0, 3, 1, 50, 0, 2, 0, 0, 0, 20,
      0, 0, 0, 80, 135, 105, 0, 4, 0, 0, 0, 1, 0, 0, 0, 50, 136, 42, 0, 8, 0, 0, 0, 1, 0,
      1, 0, 0, 0, 0, 0, 0, 0, 2, 144, 0, 0, 7, 0, 0, 0, 4, 48, 50, 50, 48, 144, 3, 0, 2,
      0, 0, 0, 20, 0, 0, 0, 100, 0, 0, 0, 0, 50, 48, 50, 52, 58, 48, 51, 58, 48, 55, 32,
      49, 51, 58, 48, 53, 58, 48, 57, 0, 50, 48, 50, 52, 58, 48, 51, 58, 48, 55, 32, 49,
      51, 58, 48, 53, 58, 48, 57, 0, 170, 170, 170, 170, 170, 170, 170, 170],
      126)"
  by code_simp

lemma exif_10000:
  "jpgutl_exif env_10000 cam_plain None (Some box_10_20) =
   Some
     ([69, 120, 105, 102, 0, 0, 77, 77, 0, 42, 0, 0, 0, 8, 0, 3, 1, 50, 0, 2, 0, 0, 0, 21,
      0, 0, 0, 92, 135, 105, 0, 4, 0, 0, 0, 1, 0, 0, 0, 50, 136, 42, 0, 8, 0, 0, 0, 1, 0,
      0, 0, 0, 0, 0, 0, 0, 0, 3, 144, 0, 0, 7, 0, 0, 0, 4, 48, 50, 50, 48, 144, 3, 0, 2,
      0, 0, 0, 21, 0, 0, 0, 116, 146, 20, 0, 3, 0, 0, 0, 4, 0, 0, 0, 137, 0, 0, 0, 0, 49,
      48, 48, 48, 48, 58, 48, 49, 58, 48, 49, 32, 48, 48, 58, 48, 48, 58, 48, 48, 0, 0, 0,
      0, 49, 48, 48, 48, 48, 58, 48, 49, 58, 48, 49, 32, 48, 48, 58, 48, 48, 58, 48, 48,
      0, 0, 10, 0, 20, 0, 4, 0, 6, 170, 170, 170, 170, 170],
      151)"
  by code_simp

lemma marker_description_box:
  "jpgutl_exif_marker fresh_aa (jpgutl_exif_tags info_description_box) =
   Some
     ([69, 120, 105, 102, 0, 0, 77, 77, 0, 42, 0, 0, 0, 8, 0, 2, 1, 14, 0, 2, 0, 0, 0, 5, 0,
       0, 0, 68, 135, 105, 0, 4, 0, 0, 0, 1, 0, 0, 0, 38, 0, 0, 0, 0, 0, 2, 144, 0, 0, 7, 0,
       0, 0, 4, 48, 50, 50, 48, 146, 20, 0, 3, 0, 0, 0, 4, 0, 0, 0, 73, 0, 0, 0, 0, 97, 98,
       99, 100, 0, 0, 10, 0, 20, 0, 4, 0, 6, 170, 170, 170, 170],
      87)"
  by code_simp

lemma ex_box_only:
  "zeroed info_box_only" "14 + ifds_bytes info_box_only + data_budget info_box_only < 2 ^ 32"
  "0 < ifd0_count info_box_only"
  by (simp_all add: example_defs size_defs)

lemma ex_datetime_only:
  "zeroed info_datetime_only"
  "14 + ifds_bytes info_datetime_only + data_budget info_datetime_only < 2 ^ 32"
  by (simp_all add: example_defs size_defs)

lemma ex_all:
  "zeroed info_all" "14 + ifds_bytes info_all + data_budget info_all < 2 ^ 32"
  "0 < ifd0_count info_all"
  by (simp_all add: example_defs size_defs)

lemma ex_all_written:
  "ifd0_written (jpgutl_exif_tags info_all) = [0x010E, 0x0132, 0x8769, 0x882A]"
  "ifd1_written info_all = [0x9000, 0x9003, 0x9214, 0x9291]"
  "ifd1_tagcount (jpgutl_exif_tags info_all) > 0"
  by (simp_all add: example_defs ifd0_written_def ifd1_written_def jpgutl_exif_tags_def Let_def)

lemma ex_env:
  "fresh_ifd0_tagcount env_2024 = 0" "fresh_ifd1_tagcount env_2024 = 0"
  "fresh_datasize env_2024 = 0"
  "length (mystrftime env_2024 cam_described (picture_exif cam_described)) < 2 ^ 31"
  by (simp_all add: env_2024_def cam_described_def strftime_plain_def)



section \<open>The metadata passes on zeroed counters\<close>

text \<open>
  With the counters zeroed and sizes that fit a \<open>uint\<close>, the tag ids of the entries of
  IFD0, read back from the marker (as many as its count field says), are the ids the writer
  went through, in strictly ascending order; and when IFD1 is emitted the same holds for
  IFD1, which starts right after IFD0.\<close>

theorem ifd_tags_ascending:
  assumes "zeroed i" and "14 + ifds_bytes i + data_budget i < 2 ^ 32" and "ifd0_count i > 0"
  shows "\<exists>marker marker_len.
           jpgutl_exif_marker fresh (jpgutl_exif_tags i) = Some (marker, marker_len) \<and>
           ifd_tags marker 14 (get_uint16 marker 14) = ifd0_written (jpgutl_exif_tags i) \<and>
           sorted_wrt (<) (ifd_tags marker 14 (get_uint16 marker 14)) \<and>
           (ifd1_tagcount (jpgutl_exif_tags i) > 0 \<longrightarrow>
              ifd_tags marker (20 + 12 * get_uint16 marker 14)
                 (get_uint16 marker (20 + 12 * get_uint16 marker 14)) = ifd1_written i \<and>
              sorted_wrt (<) (ifd_tags marker (20 + 12 * get_uint16 marker 14)
                 (get_uint16 marker (20 + 12 * get_uint16 marker 14))))"
proof -
  from assms(1) have z: "ifd0_tagcount i = 0" "ifd1_tagcount i = 0" "datasize i = 0"
    by (simp_all add: zeroed_def)
  from marker_ok[OF z assms(2) assms(3), of fresh]
  obtain marker len where r: "jpgutl_exif_marker fresh (jpgutl_exif_tags i) = Some (marker, len)"
    and k0: "get_uint16 marker 14 = ifd0_count i"
    and t0: "ifd_tags marker 14 (ifd0_count i) = ifd0_written (jpgutl_exif_tags i)"
    and t1: "ifd1_count i > 0 \<longrightarrow>
        get_uint16 marker (20 + 12 * ifd0_count i) = ifd1_count i \<and>
        ifd_tags marker (20 + 12 * ifd0_count i) (ifd1_count i) = ifd1_written i"
    by auto
  have un1: "unat (ifd1_tagcount (jpgutl_exif_tags i)) = ifd1_count i"
    unfolding tags_count1[OF z] using ifd_count_le(2)[of i] by (intro unat_of_nat32) simp
  have c1: "ifd1_tagcount (jpgutl_exif_tags i) > 0 \<longleftrightarrow> ifd1_count i > 0"
    using un1 by (simp add: word_greater_zero_iff unat_gt_0[symmetric])
  show ?thesis
    using r k0 t0 t1 c1 sorted_ifd0_written[of "jpgutl_exif_tags i"] sorted_ifd1_written[of i]
    by simp
qed

text \<open>The order at a record with all four optional fields and zeroed counters.\<close>

theorem ifd_tags_ascending_all:
  "zeroed info_all \<and> 14 + ifds_bytes info_all + data_budget info_all < 2 ^ 32 \<and>
   0 < ifd0_count info_all \<and>
   (\<exists>marker marker_len.
      jpgutl_exif_marker fresh_aa (jpgutl_exif_tags info_all) = Some (marker, marker_len) \<and>
      ifd_tags marker 14 (get_uint16 marker 14) = [0x010E, 0x0132, 0x8769, 0x882A] \<and>
      sorted_wrt (<) (ifd_tags marker 14 (get_uint16 marker 14)) \<and>
      ifd_tags marker (20 + 12 * get_uint16 marker 14)
         (get_uint16 marker (20 + 12 * get_uint16 marker 14)) = [0x9000, 0x9003, 0x9214, 0x9291] \<and>
      sorted_wrt (<) (ifd_tags marker (20 + 12 * get_uint16 marker 14)
         (get_uint16 marker (20 + 12 * get_uint16 marker 14))))"
  using ifd_tags_ascending[OF ex_all, of fresh_aa] ex_all_written ex_all by auto

text \<open>
  \<open>jpgutl_exif_date\<close> always produces a datetime string, from the timestamp passed in or
  from the clock when none is passed. So \<open>jpgutl_exif\<close>, when the fresh block has its
  counters at zero, returns a marker of positive length for every camera, timestamp and
  region, and \<open>put_jpeg_exif\<close> writes one APP1 marker.\<close>

theorem jpgutl_exif_positive:
  assumes "fresh_ifd0_tagcount e = 0" "fresh_ifd1_tagcount e = 0" "fresh_datasize e = 0"
      and "length (mystrftime e c (picture_exif c)) < 2 ^ 31"
  shows "\<exists>marker len. jpgutl_exif e c ts b = Some (marker, len) \<and> 0 < len \<and>
            put_jpeg_exif e c ts b = Some [(JPEG_APP0 + 1, take (unat len) marker)]"
proof -
  let ?i = "jpgutl_exif_date e (exif_info_init e c ts b)"
  have z: "ifd0_tagcount ?i = 0" "ifd1_tagcount ?i = 0" "datasize ?i = 0"
    using assms(1-3) by (simp_all add: date_fields exif_info_init_def)
  obtain s where dt: "datetime ?i = Some s" "length s \<le> 21"
    using date_datetime[of e "exif_info_init e c ts b"] by blast
  have pos: "ifd0_count ?i > 0" using dt(1) by (simp add: ifd0_count_pos)
  have bd: "budget (description ?i) \<le> 5 + 2 ^ 31"
    using assms(4) by (simp add: date_fields exif_info_init_def budget_def)
  have bt: "budget (datetime ?i) \<le> 26" using dt by (simp add: budget_def)
  have bs: "budget (subtime ?i) = 0" by (simp add: date_fields budget_def)
  have fit: "14 + ifds_bytes ?i + data_budget ?i < 2 ^ 32"
    using ifds_bytes_le[of ?i] present_le[of "box ?i"] bd bt bs
    by (simp add: data_budget_def)
  from marker_ok[OF z fit pos, of "fresh_bytes e"]
  obtain marker len where
    r: "jpgutl_exif_marker (fresh_bytes e) (jpgutl_exif_tags ?i) = Some (marker, len)"
    and l: "length marker = 14 + ifds_bytes ?i + data_budget ?i"
    and lo: "14 + ifds_bytes ?i + 8 * present (box ?i) \<le> unat len"
    and hi: "unat len \<le> 14 + ifds_bytes ?i + data_cost ?i"
    by auto
  have r': "jpgutl_exif e c ts b = Some (marker, len)" using r by (simp add: jpgutl_exif_def)
  have "0 < unat len" using lo by simp
  then have gt: "0 < len" by (simp add: word_greater_zero_iff unat_gt_0[symmetric])
  have le: "unat len \<le> length marker" using hi l data_cost_le[of ?i] by simp
  have "put_jpeg_exif e c ts b = Some [(JPEG_APP0 + 1, take (unat len) marker)]"
    using r' gt le by (simp add: put_jpeg_exif_def write_exif_marker_def)
  with r' gt show ?thesis by blast
qed

section \<open>The claims\<close>

text \<open>
  C1, as amended. With the counters zeroed, sizes that fit a \<open>uint\<close> and at least one field
  present, the marker length returned by the serialization pass (the final \<open>data_offset\<close>
  plus 6) is at most the size \<open>14 + ifds_size + datasize\<close> computed by the inventory
  pass. The two are equal exactly when none of the strings (description, datetime, subtime)
  is present; with a string present the marker is strictly shorter than the block, since the
  inventory pass reserves five bytes beyond each string and the serialization pass uses at
  most four.\<close>

theorem marker_len_le_buffer_size:
  assumes "zeroed i" and "14 + ifds_bytes i + data_budget i < 2 ^ 32" and "ifd0_count i > 0"
  shows "\<exists>buffer_size marker_len.
           marker_sizes (jpgutl_exif_marker fresh (jpgutl_exif_tags i))
             = Some (buffer_size, marker_len) \<and>
           buffer_size = 14 + ifds_bytes i + data_budget i \<and>
           marker_len \<le> buffer_size \<and>
           (marker_len = buffer_size \<longleftrightarrow>
              description i = None \<and> datetime i = None \<and> subtime i = None)"
proof -
  from assms(1) have z: "ifd0_tagcount i = 0" "ifd1_tagcount i = 0" "datasize i = 0"
    by (simp_all add: zeroed_def)
  from marker_ok[OF z assms(2) assms(3), of fresh]
  obtain marker len where r: "jpgutl_exif_marker fresh (jpgutl_exif_tags i) = Some (marker, len)"
    and l: "length marker = 14 + ifds_bytes i + data_budget i"
    and lo: "14 + ifds_bytes i + 8 * present (box i) \<le> unat len"
    and hi: "unat len \<le> 14 + ifds_bytes i + data_cost i"
    by blast
  have le: "unat len \<le> length marker" using hi l data_cost_le[of i] by simp
  have eq: "unat len = length marker \<longleftrightarrow>
      description i = None \<and> datetime i = None \<and> subtime i = None"
  proof (cases "description i = None \<and> datetime i = None \<and> subtime i = None")
    case True
    then show ?thesis using lo hi l data_cost_eq[of i] by simp
  next
    case False
    from data_cost_less[OF False] hi l have "unat len < length marker" by simp
    with False show ?thesis by simp
  qed
  show ?thesis using r l le eq by (simp add: marker_sizes_def)
qed

text \<open>The bound of C1 at a record with only a region, where both sizes agree.\<close>

theorem marker_len_le_buffer_size_witness:
  "zeroed info_box_only \<and> 14 + ifds_bytes info_box_only + data_budget info_box_only < 2 ^ 32 \<and>
   0 < ifd0_count info_box_only \<and>
   (\<exists>buffer_size marker_len.
      marker_sizes (jpgutl_exif_marker fresh_aa (jpgutl_exif_tags info_box_only))
        = Some (buffer_size, marker_len) \<and>
      buffer_size = 14 + ifds_bytes info_box_only + data_budget info_box_only \<and>
      marker_len \<le> buffer_size \<and>
      (marker_len = buffer_size \<longleftrightarrow>
         description info_box_only = None \<and> datetime info_box_only = None \<and>
         subtime info_box_only = None))"
  using marker_len_le_buffer_size[OF ex_box_only, of fresh_aa] ex_box_only by blast

text \<open>C1 as stated fails: with only a timestamp the inventory pass computes 134 bytes and
  the serialization pass returns a marker of 126.\<close>

theorem inventory_size_counterexample:
  "marker_sizes (jpgutl_exif env_2024 cam_plain None None) = Some (134, 126)"
  by (simp add: exif_2024 marker_sizes_def)

text \<open>
  C2. \<open>put_subjectarea\<close> stores the region at \<open>data_offset\<close> as it stands, without
  the alignment loop of \<open>put_direntry\<close>. In the year 10000 the formatted timestamp has
  20 characters and each of its two copies takes 21 bytes: the SubjectArea entry (tag
  \<open>0x9214\<close>, at index 82 of the marker) carries the value offset 137. For a record with
  the description \<open>abcd\<close>, a region and no timestamp, the entry (at index 58) carries the
  value offset 73. Neither is a multiple of 4.\<close>

theorem subject_area_unaligned:
  "get_uint16 (marker_of (jpgutl_exif env_10000 cam_plain None (Some box_10_20))) 82 = 0x9214 \<and>
   get_uint32 (marker_of (jpgutl_exif env_10000 cam_plain None (Some box_10_20))) 90 = 137 \<and>
   (137 :: nat) mod 4 = 1 \<and>
   get_uint16 (marker_of (jpgutl_exif_marker fresh_aa (jpgutl_exif_tags info_description_box))) 58
     = 0x9214 \<and>
   get_uint32 (marker_of (jpgutl_exif_marker fresh_aa (jpgutl_exif_tags info_description_box))) 66
     = 73 \<and>
   (73 :: nat) mod 4 = 1"
  by (simp add: exif_10000 marker_description_box marker_of_def get_uint32_def get_uint16_def)




text \<open>
  C5, as amended. For the timestamp components (2024, 3, 7, 13, 5, 9) the DateTime entry (tag
  \<open>0x0132\<close>, the first entry of IFD0) refers to the ASCII bytes of
  \<open>2024:03:07 13:05:09\<close> followed by a NUL, which are 20 bytes.\<close>

theorem datetime_field_2024:
  "get_uint16 (marker_of (jpgutl_exif env_2024 cam_plain None None)) 16 = 0x0132 \<and>
   entry_payload (marker_of (jpgutl_exif env_2024 cam_plain None None)) 16
     = map of_char ''2024:03:07 13:05:09'' @ [0] \<and>
   length (entry_payload (marker_of (jpgutl_exif env_2024 cam_plain None None)) 16) = 20"
  by (simp add: exif_2024 marker_of_def entry_payload_def get_uint32_def get_uint16_def)

text \<open>C5 as stated fails: the field does not occupy 21 bytes.\<close>

theorem datetime_field_counterexample:
  "get_uint16 (marker_of (jpgutl_exif env_2024 cam_plain None None)) 16 = 0x0132 \<and>
   length (entry_payload (marker_of (jpgutl_exif env_2024 cam_plain None None)) 16) \<noteq> 21"
  by (simp add: exif_2024 marker_of_def entry_payload_def get_uint32_def get_uint16_def)

text \<open>
  C6. If the width or the height the codec reports differs from what the caller declared,
  \<open>jpgutl_decode_jpeg\<close> returns -1 and the plane buffer is as it was.\<close>

theorem decode_dimension_mismatch:
  assumes "output_width d \<noteq> width \<or> output_height d \<noteq> height"
  shows "jpgutl_decode_jpeg d width height img_out = (- 1, img_out)"
  using assms by (simp add: jpgutl_decode_jpeg_def split: option.split)

text \<open>C6 at a codec reporting 2 by 2 for a caller expecting 4 by 2.\<close>

theorem decode_dimension_mismatch_witness:
  "output_width (stub 2) \<noteq> 4 \<and>
   jpgutl_decode_jpeg (stub 2) 4 2 blank_image = (- 1, blank_image)"
  using decode_dimension_mismatch[of "stub 2" 4 2 blank_image] by (simp add: stub_def)

text \<open>
  C7. The warning counter starts at 0 and counts the messages of the whole decode. The
  decode returns 0 exactly when no call ends in \<open>error_exit\<close>, the dimensions are not
  zero and are the declared ones, and at most 2 warnings were counted; otherwise it
  returns -1. So a clean decode with 3 warnings fails and one with exactly 2 succeeds.\<close>

theorem decode_warning_threshold:
  "fst (jpgutl_decode_jpeg d width height img_out) =
     (if clean d \<and> output_width d \<noteq> 0 \<and> output_height d \<noteq> 0 \<and>
         output_width d = width \<and> output_height d = height \<and> warnings d \<le> 2
      then 0 else - 1)"
proof (cases "error_exit (on_read_header d)")
  case True
  then show ?thesis by (simp add: jpgutl_decode_jpeg_def codec_None clean_def)
next
  case h: False
  from codec_Some[OF h, of "\<lparr>warning_seen = 0\<rparr>"] obtain j1 where
    j1: "codec (on_read_header d) \<lparr>warning_seen = 0\<rparr> = Some j1"
        "warning_seen j1 = int (counted (on_read_header d))" by auto
  show ?thesis
  proof (cases "error_exit (on_start_decompress d)")
    case True
    then show ?thesis using j1 by (simp add: jpgutl_decode_jpeg_def codec_None clean_def)
  next
    case st: False
    from codec_Some[OF st, of j1] obtain j2 where
      j2: "codec (on_start_decompress d) j1 = Some j2"
          "warning_seen j2 = warning_seen j1 + int (counted (on_start_decompress d))" by auto
    show ?thesis
    proof (cases "output_width d \<noteq> 0 \<and> output_height d \<noteq> 0 \<and>
                  output_width d = width \<and> output_height d = height")
      case False
      then show ?thesis using j1 j2 by (auto simp: jpgutl_decode_jpeg_def)
    next
      case dims: True
      let ?s0 = "\<lparr>jerr = j2, img = img_out, img_y = 0,
                img_cb = unat (output_width d * output_height d),
                img_cr = unat (output_width d * output_height d)
                         + unat ((output_width d * output_height d) div 4),
                offset_y = 0\<rparr>"
      let ?h = "unat (output_height d)"
      show ?thesis
      proof (cases "list_all (\<lambda>k. \<not> error_exit (on_read_scanlines d k)) [0..<?h]")
        case False
        then have "\<not> list_all (\<lambda>k. \<not> error_exit (on_read_scanlines d k)) [0..<0 + ?h]" by simp
        from read_lines_abort[OF this, of ?s0]
        obtain s where "read_lines d 0 ?h ?s0 = (True, s)" by (cases "read_lines d 0 ?h ?s0") auto
        then show ?thesis using j1 j2 dims False
          by (simp add: jpgutl_decode_jpeg_def clean_def)
      next
        case rows: True
        then have "list_all (\<lambda>k. \<not> error_exit (on_read_scanlines d k)) [0..<0 + ?h]" by simp
        from read_lines_clean[OF this, of ?s0] obtain s where
          s: "read_lines d 0 ?h ?s0 = (False, s)"
             "warning_seen (jerr s) = warning_seen j2
                + int (sum_list (map (\<lambda>k. counted (on_read_scanlines d k)) [0..<?h]))"
          by auto
        show ?thesis
        proof (cases "error_exit (on_finish_decompress d)")
          case True
          then show ?thesis using j1 j2 dims s
            by (simp add: jpgutl_decode_jpeg_def codec_None clean_def)
        next
          case fin: False
          from codec_Some[OF fin, of "jerr s"] obtain j3 where
            j3: "codec (on_finish_decompress d) (jerr s) = Some j3"
                "warning_seen j3 = warning_seen (jerr s) + int (counted (on_finish_decompress d))"
            by auto
          have tot: "warning_seen j3 = int (warnings d)"
            using j3(2) s(2) j2(2) j1(2) by (simp add: warnings_def)
          have cl: "clean d" using h st rows fin by (simp add: clean_def)
          show ?thesis using j1(1) j2(1) dims s(1) j3(1) tot cl
            by (simp add: jpgutl_decode_jpeg_def)
        qed
      qed
    qed
  qed
qed

text \<open>C7 at a codec giving three warnings, which fails, and one giving two, which
  succeeds.\<close>

theorem decode_warning_threshold_witness:
  "clean (stub 3) \<and> warnings (stub 3) = 3 \<and>
   fst (jpgutl_decode_jpeg (stub 3) 2 3 blank_image) = - 1 \<and>
   clean (stub 2) \<and> warnings (stub 2) = 2 \<and>
   fst (jpgutl_decode_jpeg (stub 2) 2 2 blank_image) = 0"
proof -
  have c3: "clean (stub 3)" and c2: "clean (stub 2)" by code_simp+
  have w3: "warnings (stub 3) = 3" and w2: "warnings (stub 2) = 2" by code_simp+
  have d3: "output_width (stub 3) = 2" "output_height (stub 3) = 3"
    and d2: "output_width (stub 2) = 2" "output_height (stub 2) = 2"
    by (simp_all add: stub_def)
  show ?thesis
    using decode_warning_threshold[of "stub 3" 2 3 blank_image]
      decode_warning_threshold[of "stub 2" 2 2 blank_image] c3 c2 w3 w2 d3 d2
    by simp
qed

text \<open>
  C8. For an image 16 wide and 8 high the only row group is padded: the luma entries past
  the image height are null pointers, and the chroma entries the codec reads past the image
  height (\<open>cb[4]\<close> to \<open>cb[7]\<close>, \<open>cr[4]\<close> to \<open>cr[7]\<close>) were never assigned. None is
  a pointer to zero-valued pixels.\<close>

theorem padding_rows_are_null:
  "y_rows (last (jpgutl_put_yuv420p_rows 16 8)) ! 8 = Null \<and>
   cb_rows (last (jpgutl_put_yuv420p_rows 16 8)) ! 4 = Uninitialised \<and>
   cr_rows (last (jpgutl_put_yuv420p_rows 16 8)) ! 4 = Uninitialised"
  by code_simp

text \<open>
  C10. With the counters zeroed and sizes that fit a \<open>uint\<close>, for every combination of
  fields and every string length the serialization pass makes no store outside the block of
  \<open>14 + ifds_size + datasize\<close> bytes (the result is \<open>Some\<close>), and the returned
  marker length is at most the size of the block.\<close>

theorem serialization_within_buffer:
  assumes "zeroed i" and "14 + ifds_bytes i + data_budget i < 2 ^ 32"
  shows "\<exists>marker marker_len.
           jpgutl_exif_marker fresh (jpgutl_exif_tags i) = Some (marker, marker_len) \<and>
           unat marker_len \<le> length marker \<and>
           (ifds_size (jpgutl_exif_tags i) \<noteq> 0 \<longrightarrow>
              length marker = unat (14 + ifds_size (jpgutl_exif_tags i)
                                      + datasize (jpgutl_exif_tags i)))"
proof (cases "ifd0_count i > 0")
  case False
  then have "ifd0_count i = 0" by simp
  from marker_none[OF assms(1) this, of fresh] have
    r: "jpgutl_exif_marker fresh (jpgutl_exif_tags i) = Some ([], 0)" .
  have "ifds_bytes i = 0" using False by (simp add: ifds_bytes_eq)
  then have "ifds_size (jpgutl_exif_tags i) = 0"
    using tags_ifds_size[of i] assms(1) by (simp add: zeroed_def)
  with r show ?thesis by simp
next
  case True
  from assms(1) have z: "ifd0_tagcount i = 0" "ifd1_tagcount i = 0" "datasize i = 0"
    by (simp_all add: zeroed_def)
  from marker_ok[OF z assms(2) True, of fresh]
  obtain marker len where r: "jpgutl_exif_marker fresh (jpgutl_exif_tags i) = Some (marker, len)"
    and l: "length marker = 14 + ifds_bytes i + data_budget i"
    and hi: "unat len \<le> 14 + ifds_bytes i + data_cost i"
    by blast
  have le: "unat len \<le> length marker" using hi l data_cost_le[of i] by simp
  have "14 + ifds_size (jpgutl_exif_tags i) + datasize (jpgutl_exif_tags i)
      = of_nat (14 + ifds_bytes i + data_budget i)"
    by (simp add: tags_ifds_size[OF z] tags_datasize[OF z])
  then have "unat (14 + ifds_size (jpgutl_exif_tags i) + datasize (jpgutl_exif_tags i))
      = 14 + ifds_bytes i + data_budget i"
    using assms(2) by (simp only: unat_of_nat32)
  with r l le show ?thesis by simp
qed

text \<open>C10 at a record with only a timestamp, where the marker is shorter than the block.\<close>

theorem serialization_within_buffer_witness:
  "zeroed info_datetime_only \<and>
   14 + ifds_bytes info_datetime_only + data_budget info_datetime_only < 2 ^ 32 \<and>
   (\<exists>marker marker_len.
      jpgutl_exif_marker fresh_aa (jpgutl_exif_tags info_datetime_only) = Some (marker, marker_len) \<and>
      unat marker_len \<le> length marker \<and>
      (ifds_size (jpgutl_exif_tags info_datetime_only) \<noteq> 0 \<longrightarrow>
         length marker = unat (14 + ifds_size (jpgutl_exif_tags info_datetime_only)
                                 + datasize (jpgutl_exif_tags info_datetime_only))))"
  using serialization_within_buffer[OF ex_datetime_only, of fresh_aa] ex_datetime_only by blast

end
